theory Spec2Isabelle
  imports Complex_Main
begin

section \<open>Exceptions and built-ins\<close>

text \<open>
  The Python exceptions the modules can raise, one constructor per kind of raise:
  \<^item> \<open>FileNotFoundError\<close>: \<^verbatim>\<open>open(file_name, 'r')\<close>;
  \<^item> \<open>IndexError\<close>: a list or array index out of range;
  \<^item> \<open>ValueError_int tok\<close>, \<open>ValueError_float tok\<close>: \<^verbatim>\<open>int(tok)\<close>, \<^verbatim>\<open>float(tok)\<close> on a
    token the built-in rejects (the message of the exception quotes the token);
  \<^item> \<open>ValueError_negative_dimensions\<close>: \<^verbatim>\<open>np.zeros\<close> with a negative dimension;
  \<^item> \<open>ValueError_not_in_list\<close>: \<^verbatim>\<open>list.index(1)\<close> on a list without an element equal to 1;
  \<^item> \<open>ValueError_math_domain\<close>: \<^verbatim>\<open>math.sqrt\<close> of a negative float;
  \<^item> \<open>OverflowError\<close>: a float power out of range, or a list length beyond the index size;
  \<^item> \<open>MemoryError\<close>: a list or an array that cannot be allocated;
  \<^item> \<open>Exception_no_solution_found\<close>: \<^verbatim>\<open>raise Exception("no solution found")\<close>.
\<close>

datatype py_exception =
    FileNotFoundError
  | IndexError
  | ValueError_int string
  | ValueError_float string
  | ValueError_negative_dimensions
  | ValueError_not_in_list
  | ValueError_math_domain
  | OverflowError
  | MemoryError
  | Exception_no_solution_found

text \<open>
  The built-ins of the interpreter and of numpy that the source calls and that can raise or
  that compute with floats are parameters of the model, collected in one record. \<open>'f\<close> is
  the type of the floats of the instance (infinities and NaN among them).
  \<^item> \<open>int_of_str\<close>, \<open>float_of_str\<close>: \<^verbatim>\<open>int(s)\<close> and \<^verbatim>\<open>float(s)\<close>, \<open>None\<close> where they raise
    ValueError;
  \<^item> \<open>float_zero\<close>: the float \<^verbatim>\<open>0.0\<close>;
  \<^item> \<open>repeat_error n\<close>: the exception that \<^verbatim>\<open>[x] * n\<close> raises, if any (OverflowError when
    \<open>n\<close> exceeds the index size, MemoryError when the list cannot be allocated);
  \<^item> \<open>zeros_error shape\<close>: the exception that \<^verbatim>\<open>np.zeros(shape, dtype=object)\<close> raises, if
    any;
  \<^item> \<open>float_sub\<close>, \<open>float_add\<close>: \<^verbatim>\<open>x - y\<close> and \<^verbatim>\<open>x + y\<close> on floats, which do not raise;
  \<^item> \<open>float_pow2\<close>: \<^verbatim>\<open>x ** 2\<close> on a float, which raises OverflowError when the result is
    out of range;
  \<^item> \<open>math_sqrt\<close>: \<^verbatim>\<open>math.sqrt(x)\<close>.
\<close>

record 'f runtime =
  int_of_str :: "string \<Rightarrow> int option"
  float_of_str :: "string \<Rightarrow> 'f option"
  float_zero :: 'f
  repeat_error :: "int \<Rightarrow> py_exception option"
  zeros_error :: "int list \<Rightarrow> py_exception option"
  float_sub :: "'f \<Rightarrow> 'f \<Rightarrow> 'f"
  float_add :: "'f \<Rightarrow> 'f \<Rightarrow> 'f"
  float_pow2 :: "'f \<Rightarrow> py_exception + 'f"
  math_sqrt :: "'f \<Rightarrow> py_exception + 'f"

section \<open>The problem instance (vrp\_instance.py)\<close>

record 'f vrp_instance =
  num_customers :: int
  num_vehicles :: int
  vehicle_capacity :: int
  demand_of_customer :: "int list"
  x_coord_of_customer :: "'f list"
  y_coord_of_customer :: "'f list"

text \<open>
  \<^verbatim>\<open>str.strip()\<close> and \<^verbatim>\<open>str.split()\<close> without arguments. A character is a code point
  below 256; the separators are the twelve of them for which \<^verbatim>\<open>str.isspace\<close> holds.
\<close>

definition is_space :: "char \<Rightarrow> bool" where
  "is_space c \<longleftrightarrow> c \<in> set [CHR 0x09, CHR 0x0A, CHR 0x0B, CHR 0x0C, CHR 0x0D,
                           CHR 0x1C, CHR 0x1D, CHR 0x1E, CHR 0x1F, CHR 0x20,
                           CHR 0x85, CHR 0xA0]"

definition strip :: "string \<Rightarrow> string" where
  "strip s = rev (dropWhile is_space (rev (dropWhile is_space s)))"

fun split_from :: "string \<Rightarrow> string \<Rightarrow> string list" where
  "split_from cur [] = (if cur = [] then [] else [cur])"
| "split_from cur (c # cs) =
     (if is_space c then (if cur = [] then split_from [] cs else cur # split_from [] cs)
      else split_from (cur @ [c]) cs)"

definition split :: "string \<Rightarrow> string list" where
  "split s = split_from [] s"

text \<open>\<^verbatim>\<open>xs[i]\<close> for a non-negative index: IndexError out of range.\<close>

definition item :: "'a list \<Rightarrow> nat \<Rightarrow> py_exception + 'a" where
  "item xs i = (if i < length xs then Inr (xs ! i) else Inl IndexError)"

text \<open>\<^verbatim>\<open>int(tok)\<close> and \<^verbatim>\<open>float(tok)\<close>, with their ValueError.\<close>

definition py_int :: "'f runtime \<Rightarrow> string \<Rightarrow> py_exception + int" where
  "py_int rt tok = (case int_of_str rt tok of None \<Rightarrow> Inl (ValueError_int tok) | Some k \<Rightarrow> Inr k)"

definition py_float :: "'f runtime \<Rightarrow> string \<Rightarrow> py_exception + 'f" where
  "py_float rt tok =
     (case float_of_str rt tok of None \<Rightarrow> Inl (ValueError_float tok) | Some r \<Rightarrow> Inr r)"

text \<open>\<^verbatim>\<open>[x] * n\<close>: the empty list for a negative \<open>n\<close>.\<close>

definition repeat :: "'f runtime \<Rightarrow> 'a \<Rightarrow> int \<Rightarrow> py_exception + 'a list" where
  "repeat rt x n = (case repeat_error rt n of Some e \<Rightarrow> Inl e | None \<Rightarrow> Inr (replicate (nat n) x))"

text \<open>Sequencing of two steps, the first of which may raise.\<close>

definition and_then :: "py_exception + 'a \<Rightarrow> ('a \<Rightarrow> py_exception + 'b) \<Rightarrow> py_exception + 'b" where
  "and_then r f = (case r of Inl e \<Rightarrow> Inl e | Inr x \<Rightarrow> f x)"

text \<open>
  Lines 8 to 11: the first line gives \<open>num_customers\<close>, \<open>num_vehicles\<close> and
  \<open>vehicle_capacity\<close>, each token indexed and then converted, in this order.
\<close>

definition parse_first_line ::
  "'f runtime \<Rightarrow> string list \<Rightarrow> py_exception + (int \<times> int \<times> int)" where
  "parse_first_line rt lines =
     and_then (item lines 0) (\<lambda>l0.
       let first_line = split (strip l0) in
       and_then (item first_line 0) (\<lambda>t0. and_then (py_int rt t0) (\<lambda>n.
       and_then (item first_line 1) (\<lambda>t1. and_then (py_int rt t1) (\<lambda>nv.
       and_then (item first_line 2) (\<lambda>t2. and_then (py_int rt t2) (\<lambda>cap.
       Inr (n, nv, cap))))))))"

text \<open>Lines 21 to 24: the three fields of one customer line.\<close>

definition parse_customer_data ::
  "'f runtime \<Rightarrow> string \<Rightarrow> py_exception + (int \<times> 'f \<times> 'f)" where
  "parse_customer_data rt line =
     (let customer_data = split (strip line) in
      and_then (item customer_data 0) (\<lambda>t0. and_then (py_int rt t0) (\<lambda>d.
      and_then (item customer_data 1) (\<lambda>t1. and_then (py_float rt t1) (\<lambda>x.
      and_then (item customer_data 2) (\<lambda>t2. and_then (py_float rt t2) (\<lambda>y.
      Inr (d, x, y))))))))"

text \<open>
  Lines 19 to 24: the loop over \<open>range(num_customers)\<close>. A customer whose line
  \<open>i + 1\<close> is beyond the end of the file is skipped and keeps its initial values.
\<close>

fun parse_customers ::
  "'f runtime \<Rightarrow> string list \<Rightarrow> nat list \<Rightarrow> 'f vrp_instance \<Rightarrow>
     py_exception + 'f vrp_instance" where
  "parse_customers rt lines [] inst = Inr inst"
| "parse_customers rt lines (i # rest) inst =
     (if i + 1 < length lines then
        and_then (parse_customer_data rt (lines ! (i + 1))) (\<lambda>(d, x, y).
          parse_customers rt lines rest
            (inst\<lparr>demand_of_customer := (demand_of_customer inst)[i := d],
                  x_coord_of_customer := (x_coord_of_customer inst)[i := x],
                  y_coord_of_customer := (y_coord_of_customer inst)[i := y]\<rparr>))
      else parse_customers rt lines rest inst)"

text \<open>
  \<open>VRPInstance.__init__\<close>. The argument is the result of \<^verbatim>\<open>file.readlines()\<close>, or \<open>None\<close>
  when the file does not exist. Both handlers print the exception and call \<^verbatim>\<open>exit(-1)\<close>:
  \<open>Inl e\<close> is that exit, after \<open>e\<close> was reported, and no instance exists then. Lines 14 to
  16 build the three lists, each of which can raise, before any customer line is read.
\<close>

definition VRPInstance_init ::
  "'f runtime \<Rightarrow> string list option \<Rightarrow> py_exception + 'f vrp_instance" where
  "VRPInstance_init rt file =
     (case file of
        None \<Rightarrow> Inl FileNotFoundError
      | Some lines \<Rightarrow>
          and_then (parse_first_line rt lines) (\<lambda>(n, nv, cap).
          and_then (repeat rt 0 n) (\<lambda>demands.
          and_then (repeat rt (float_zero rt) n) (\<lambda>xs.
          and_then (repeat rt (float_zero rt) n) (\<lambda>ys.
            parse_customers rt lines [0..<nat n]
              \<lparr>num_customers = n, num_vehicles = nv, vehicle_capacity = cap,
               demand_of_customer = demands,
               x_coord_of_customer = xs,
               y_coord_of_customer = ys\<rparr>)))))"

text \<open>
  The runtime at which the examples below are evaluated. Its floats are real numbers; it
  reads unsigned decimal numerals, on which \<^verbatim>\<open>int("12")\<close> is 12 and \<^verbatim>\<open>float("12")\<close> is
  12.0; it has the index size of a 64-bit interpreter and memory for every list and array
  within it; its float operations are exact, the square being out of range from \<open>2 ^ 512\<close>
  on. Every token of the examples is such a numeral, and every float in them is a small
  whole number, on which Python computes the same differences, squares and sums.
\<close>

definition is_digit :: "char \<Rightarrow> bool" where
  "is_digit c \<longleftrightarrow> c \<in> set ''0123456789''"

definition digits_value :: "string \<Rightarrow> nat" where
  "digits_value s = foldl (\<lambda>a c. 10 * a + (of_char c - 48)) 0 s"

definition dec_int :: "string \<Rightarrow> int option" where
  "dec_int s = (if s \<noteq> [] \<and> list_all is_digit s then Some (int (digits_value s)) else None)"

definition dec_float :: "string \<Rightarrow> real option" where
  "dec_float s = map_option real_of_int (dec_int s)"

definition py64 :: "real runtime" where
  "py64 =
     \<lparr>int_of_str = dec_int,
      float_of_str = dec_float,
      float_zero = 0,
      repeat_error = (\<lambda>n. if 2 ^ 63 - 1 < n then Some OverflowError
                          else if (2 ^ 63 - 1) div 8 < n then Some MemoryError else None),
      zeros_error = (\<lambda>shape. if \<exists>d\<in>set shape. d < 0 then Some ValueError_negative_dimensions
                              else None),
      float_sub = (\<lambda>x y. x - y),
      float_add = (\<lambda>x y. x + y),
      float_pow2 = (\<lambda>x. if 2 ^ 512 \<le> \<bar>x\<bar> then Inl OverflowError else Inr (x\<^sup>2)),
      math_sqrt = (\<lambda>x. if x < 0 then Inl ValueError_math_domain else Inr (sqrt x))\<rparr>"

section \<open>The model handed to the solver (solver\_.py, \<open>VRPSolver.__init__\<close>)\<close>

text \<open>
  The docplex model is data: integer variables with bounds, linear constraints and a linear
  objective. A variable is identified by its place in \<open>edge_var\<close> or \<open>order_var\<close>. A linear
  expression is the term the source builds with \<^verbatim>\<open>+\<close>, \<^verbatim>\<open>-\<close>, \<^verbatim>\<open>*\<close>, \<^verbatim>\<open>model.sum\<close> and
  \<^verbatim>\<open>model.scal_prod\<close>; a constraint is two expressions compared by \<^verbatim>\<open>==\<close>, \<^verbatim>\<open><=\<close> or \<^verbatim>\<open>>=\<close>.
\<close>

datatype var = EdgeVar nat nat nat | OrderVar nat nat

datatype expr =
    Var var
  | Num int
  | Add expr expr
  | Sub expr expr
  | Scale int expr
  | Sum "expr list"

datatype rel = EQ | LE | GE

datatype constraint = Constraint expr rel expr

record 'f model =
  variables :: "(var \<times> int \<times> int) list"
  constraints :: "constraint list"
  objective :: "(var \<times> 'f) list"

text \<open>The value of an expression and the truth of a constraint under an assignment.\<close>

fun eval :: "(var \<Rightarrow> int) \<Rightarrow> expr \<Rightarrow> int" where
  "eval a (Var x) = a x"
| "eval a (Num k) = k"
| "eval a (Add e1 e2) = eval a e1 + eval a e2"
| "eval a (Sub e1 e2) = eval a e1 - eval a e2"
| "eval a (Scale k e) = k * eval a e"
| "eval a (Sum es) = sum_list (map (eval a) es)"

fun holds :: "(var \<Rightarrow> int) \<Rightarrow> constraint \<Rightarrow> bool" where
  "holds a (Constraint l EQ r) \<longleftrightarrow> eval a l = eval a r"
| "holds a (Constraint l LE r) \<longleftrightarrow> eval a l \<le> eval a r"
| "holds a (Constraint l GE r) \<longleftrightarrow> eval a l \<ge> eval a r"

text \<open>The variables that occur in an expression, in a constraint.\<close>

fun vars_of :: "expr \<Rightarrow> var list" where
  "vars_of (Var x) = [x]"
| "vars_of (Num k) = []"
| "vars_of (Add e1 e2) = vars_of e1 @ vars_of e2"
| "vars_of (Sub e1 e2) = vars_of e1 @ vars_of e2"
| "vars_of (Scale k e) = vars_of e"
| "vars_of (Sum es) = concat (map vars_of es)"

fun constraint_vars :: "constraint \<Rightarrow> var list" where
  "constraint_vars (Constraint l r e) = vars_of l @ vars_of e"

text \<open>
  Slices of the array \<open>edge_var\<close> of shape (vehicles, customers, customers):
  \<^verbatim>\<open>edge_var[v, c, :]\<close>, \<^verbatim>\<open>edge_var[v, :, c]\<close>, and the flattened
  \<^verbatim>\<open>edge_var[:, c, :]\<close> and \<^verbatim>\<open>edge_var[:, :, c]\<close> (row-major, the vehicle outermost).
\<close>

definition edge_row :: "nat \<Rightarrow> nat \<Rightarrow> nat \<Rightarrow> expr list" where
  "edge_row n v c = map (\<lambda>j. Var (EdgeVar v c j)) [0..<n]"

definition edge_col :: "nat \<Rightarrow> nat \<Rightarrow> nat \<Rightarrow> expr list" where
  "edge_col n v c = map (\<lambda>i. Var (EdgeVar v i c)) [0..<n]"

definition all_rows :: "nat \<Rightarrow> nat \<Rightarrow> nat \<Rightarrow> expr list" where
  "all_rows nv n c = concat (map (\<lambda>v. edge_row n v c) [0..<nv])"

definition all_cols :: "nat \<Rightarrow> nat \<Rightarrow> nat \<Rightarrow> expr list" where
  "all_cols nv n c = concat (map (\<lambda>v. edge_col n v c) [0..<nv])"

text \<open>\<^verbatim>\<open>model.scal_prod(terms, coefs)\<close>: the sum of the products \<open>coefs[k] * terms[k]\<close>.\<close>

definition scal_prod :: "expr list \<Rightarrow> int list \<Rightarrow> expr" where
  "scal_prod terms coefs = Sum (map (\<lambda>(t, k). Scale k t) (zip terms coefs))"

text \<open>Lines 14 to 21 and 23 to 29: the variables with their bounds.\<close>

definition edge_var_decls :: "nat \<Rightarrow> nat \<Rightarrow> (var \<times> int \<times> int) list" where
  "edge_var_decls nv n =
     concat (map (\<lambda>v. concat (map (\<lambda>i. map (\<lambda>j.
       if i \<noteq> j then (EdgeVar v i j, 0, 1) else (EdgeVar v i j, 0, 0)) [0..<n]) [0..<n])) [0..<nv])"

definition order_var_decls :: "'f vrp_instance \<Rightarrow> nat \<Rightarrow> nat \<Rightarrow> (var \<times> int \<times> int) list" where
  "order_var_decls p nv n =
     concat (map (\<lambda>v. map (\<lambda>i.
       if i = 0 then (OrderVar v i, 0, 0) else (OrderVar v i, 1, num_customers p - 1)) [0..<n]) [0..<nv])"

text \<open>Lines 34 to 48: the flow constraints, customer by customer.\<close>

definition flow_constraints :: "nat \<Rightarrow> nat \<Rightarrow> constraint list" where
  "flow_constraints nv n =
     concat (map (\<lambda>c.
       (let incoming_flow = Sum (all_cols nv n c);
            outgoing_flow = Sum (all_rows nv n c)
        in (if c \<noteq> 0
            then [Constraint incoming_flow EQ (Num 1), Constraint outgoing_flow EQ (Num 1)]
            else [Constraint incoming_flow EQ outgoing_flow])
           @ map (\<lambda>v. Constraint (Sum (edge_col n v c)) EQ (Sum (edge_row n v c))) [0..<nv]))
       [0..<n])"

text \<open>Lines 51 to 54: each vehicle leaves and enters the depot at most once.\<close>

definition depot_constraints :: "nat \<Rightarrow> nat \<Rightarrow> constraint list" where
  "depot_constraints nv n =
     concat (map (\<lambda>v.
       [Constraint (Sum (edge_row n v 0)) LE (Num 1),
        Constraint (Sum (edge_col n v 0)) LE (Num 1),
        Constraint (Sum (edge_row n v 0)) EQ (Sum (edge_col n v 0))]) [0..<nv])"

text \<open>Lines 57 to 64: capacity, one constraint for each vehicle.\<close>

definition total_demand_served :: "'f vrp_instance \<Rightarrow> nat \<Rightarrow> nat \<Rightarrow> expr list" where
  "total_demand_served p n v =
     map (\<lambda>c. scal_prod (edge_row n v c) (demand_of_customer p)) [0..<n]"

definition capacity_constraints :: "'f vrp_instance \<Rightarrow> nat \<Rightarrow> nat \<Rightarrow> constraint list" where
  "capacity_constraints p nv n =
     map (\<lambda>v. Constraint (Sum (total_demand_served p n v)) LE (Num (vehicle_capacity p))) [0..<nv]"

text \<open>Lines 67 to 72: the ordering constraints, for \<open>i\<close> and \<open>j\<close> in \<open>range(1, num_customers)\<close>.\<close>

definition mtz_constraints :: "'f vrp_instance \<Rightarrow> nat \<Rightarrow> nat \<Rightarrow> constraint list" where
  "mtz_constraints p nv n =
     concat (map (\<lambda>v. concat (map (\<lambda>i. map (\<lambda>j.
       Constraint (Var (OrderVar v i)) GE
         (Sub (Add (Var (OrderVar v j)) (Num 1))
              (Scale (num_customers p) (Sub (Num 1) (Var (EdgeVar v i j))))))
       [1..<n]) [1..<n])) [0..<nv])"

text \<open>
  Lines 114 to 117: the Euclidean distance. The coordinates of \<open>i\<close> are read first, then
  those of \<open>j\<close>; the square of the first difference is computed before the second one.
\<close>

definition distance :: "'f runtime \<Rightarrow> 'f vrp_instance \<Rightarrow> nat \<Rightarrow> nat \<Rightarrow> py_exception + 'f" where
  "distance rt p i j =
     and_then (item (x_coord_of_customer p) i) (\<lambda>x1.
     and_then (item (y_coord_of_customer p) i) (\<lambda>y1.
     and_then (item (x_coord_of_customer p) j) (\<lambda>x2.
     and_then (item (y_coord_of_customer p) j) (\<lambda>y2.
     and_then (float_pow2 rt (float_sub rt x1 x2)) (\<lambda>dx2.
     and_then (float_pow2 rt (float_sub rt y1 y2)) (\<lambda>dy2.
     math_sqrt rt (float_add rt dx2 dy2)))))))"

text \<open>A list of results computed one after the other: the first exception ends it.\<close>

fun collect :: "(py_exception + 'a) list \<Rightarrow> py_exception + 'a list" where
  "collect [] = Inr []"
| "collect (r # rs) = and_then r (\<lambda>x. and_then (collect rs) (\<lambda>xs. Inr (x # xs)))"

text \<open>
  Lines 74 to 79: the terms of the objective, generated for \<open>v\<close>, \<open>i\<close> and \<open>j\<close> in this
  order, each with the distance as its coefficient.
\<close>

definition distance_traveled ::
  "'f runtime \<Rightarrow> 'f vrp_instance \<Rightarrow> nat \<Rightarrow> nat \<Rightarrow> py_exception + (var \<times> 'f) list" where
  "distance_traveled rt p nv n =
     collect (concat (map (\<lambda>v. concat (map (\<lambda>i. map (\<lambda>j.
       and_then (distance rt p i j) (\<lambda>d. Inr (EdgeVar v i j, d))) [0..<n]) [0..<n])) [0..<nv]))"

text \<open>
  \<open>VRPSolver.__init__\<close>. The two arrays of variables are allocated by \<^verbatim>\<open>np.zeros\<close>, which
  raises for a negative dimension whatever \<open>zeros_error\<close> says of other shapes. With no
  customer and at least one vehicle, \<^verbatim>\<open>edge_var[v, 0, :]\<close> in line 52 raises IndexError,
  nothing before it being executed for an empty range. The constraints are built without reading a float; the
  objective, built last, calls \<open>distance\<close> for every vehicle and every pair of nodes.
  \<open>scal_prod\<close> is given a row of \<open>num_customers\<close> variables and the list of demands, which
  \<open>VRPInstance\<close> builds with \<open>num_customers\<close> entries. What the modelling library does with
  the variables, expressions and coefficients it is given is outside this model, which
  records them.
\<close>

definition VRPSolver_init :: "'f runtime \<Rightarrow> 'f vrp_instance \<Rightarrow> py_exception + 'f model" where
  "VRPSolver_init rt p =
     (case zeros_error rt [num_vehicles p, num_customers p, num_customers p] of
        Some e \<Rightarrow> Inl e
      | None \<Rightarrow>
          if num_vehicles p < 0 \<or> num_customers p < 0 then Inl ValueError_negative_dimensions
          else (case zeros_error rt [num_vehicles p, num_customers p] of
            Some e \<Rightarrow> Inl e
          | None \<Rightarrow>
              let nv = nat (num_vehicles p); n = nat (num_customers p) in
              if n = 0 \<and> 0 < nv then Inl IndexError
              else and_then (distance_traveled rt p nv n) (\<lambda>obj.
                Inr \<lparr>variables = edge_var_decls nv n @ order_var_decls p nv n,
                     constraints = flow_constraints nv n @ depot_constraints nv n
                                   @ capacity_constraints p nv n @ mtz_constraints p nv n,
                     objective = obj\<rparr>)))"

section \<open>Decoding the solution (solver\_.py, \<open>VRPSolver.solve\<close>)\<close>

text \<open>
  What \<^verbatim>\<open>model.solve()\<close> returns when it finds a solution: the value of every variable
  (a float, modelled by the real number it denotes) and the value of the objective.
\<close>

record solution =
  solution_value :: "var \<Rightarrow> real"
  objective_value :: real

text \<open>\<^verbatim>\<open>str(n)\<close> for a non-negative integer.\<close>

function str_nat :: "nat \<Rightarrow> string" where
  "str_nat n =
     (if n < 10 then [''0123456789'' ! n]
      else str_nat (n div 10) @ [''0123456789'' ! (n mod 10)])"
  by pat_completeness auto
termination
  by (relation "measure id") auto

text \<open>\<^verbatim>\<open>xs.index(x)\<close>: the first position holding a value equal to \<open>x\<close>, \<open>None\<close> where Python raises.\<close>

fun index_of :: "'a list \<Rightarrow> 'a \<Rightarrow> nat option" where
  "index_of [] x = None"
| "index_of (y # ys) x = (if y = x then Some 0 else map_option Suc (index_of ys x))"

text \<open>\<^verbatim>\<open>[x.solution_value for x in self.edge_var[v, c, :]]\<close>.\<close>

definition solution_row :: "solution \<Rightarrow> nat \<Rightarrow> nat \<Rightarrow> nat \<Rightarrow> real list" where
  "solution_row sol n v c = map (\<lambda>j. solution_value sol (EdgeVar v c j)) [0..<n]"

text \<open>
  Lines 97 to 102: the loop \<^verbatim>\<open>while True\<close>. It has no bound, so the result is an option:
  \<open>None\<close> is the loop that never ends.
\<close>

partial_function (option) trace_route ::
  "(nat \<Rightarrow> real list) \<Rightarrow> nat \<Rightarrow> string list \<Rightarrow> (py_exception + string list) option" where
  "trace_route row current_node vehicle_i_route =
     (case index_of (row current_node) 1 of
        None \<Rightarrow> Some (Inl ValueError_not_in_list)
      | Some next_node \<Rightarrow>
          (if next_node = 0 then Some (Inr (vehicle_i_route @ [str_nat next_node]))
           else trace_route row next_node (vehicle_i_route @ [str_nat next_node])))"

text \<open>
  Lines 88 to 104, for one vehicle. \<open>pretty_print_matrix\<close> only prints, but reads
  \<^verbatim>\<open>matrix[0]\<close>, an IndexError when there is no customer.
\<close>

definition decode_vehicle :: "solution \<Rightarrow> nat \<Rightarrow> nat \<Rightarrow> (py_exception + string list) option" where
  "decode_vehicle sol n v =
     (if n = 0 then Some (Inl IndexError)
      else
        let first_row_of_edge_matrix = solution_row sol n v 0 in
        if 1 \<notin> set first_row_of_edge_matrix then Some (Inr [''0'', ''0''])
        else trace_route (solution_row sol n v) 0 [str_nat 0])"

text \<open>Lines 86 to 104: the loop over the vehicles, which appends each route.\<close>

fun decode_routes ::
  "solution \<Rightarrow> nat \<Rightarrow> nat list \<Rightarrow> string list list \<Rightarrow> (py_exception + string list list) option" where
  "decode_routes sol n [] vehicle_routes = Some (Inr vehicle_routes)"
| "decode_routes sol n (v # vs) vehicle_routes =
     (case decode_vehicle sol n v of
        None \<Rightarrow> None
      | Some (Inl e) \<Rightarrow> Some (Inl e)
      | Some (Inr vehicle_i_route) \<Rightarrow> decode_routes sol n vs (vehicle_routes @ [vehicle_i_route]))"

text \<open>
  Lines 106 to 109. \<open>fmt\<close> is Python's formatting of \<^verbatim>\<open>round(objective_value, 1)\<close>, a
  parameter of the model.
\<close>

fun join :: "string \<Rightarrow> string list \<Rightarrow> string" where
  "join sep [] = []"
| "join sep [x] = x"
| "join sep (x # y # ys) = x @ sep @ join sep (y # ys)"

definition sol_string :: "(real \<Rightarrow> string) \<Rightarrow> real \<Rightarrow> string list list \<Rightarrow> string" where
  "sol_string fmt obj vehicle_routes =
     fmt obj @ '' 1'' @ [CHR 0x0A]
     @ concat (map (\<lambda>vehicle_route. join '' '' vehicle_route @ [CHR 0x0A]) vehicle_routes)"

text \<open>
  \<open>VRPSolver.solve\<close>. The solving engine is a parameter: it maps the model to a solution, or
  to \<open>None\<close> when it finds none.
\<close>

definition solve ::
  "(real \<Rightarrow> string) \<Rightarrow> ('f model \<Rightarrow> solution option) \<Rightarrow> 'f vrp_instance \<Rightarrow> 'f model \<Rightarrow>
     (py_exception + string) option" where
  "solve fmt engine p m =
     (case engine m of
        None \<Rightarrow> Some (Inl Exception_no_solution_found)
      | Some sol \<Rightarrow>
          (case decode_routes sol (nat (num_customers p)) [0..<nat (num_vehicles p)] [] of
             None \<Rightarrow> None
           | Some (Inl e) \<Rightarrow> Some (Inl e)
           | Some (Inr vehicle_routes) \<Rightarrow>
               Some (Inr (sol_string fmt (objective_value sol) vehicle_routes))))"

text \<open>main.py, lines 24 to 26: the instance is built, then the model, then it is solved.\<close>

definition main ::
  "'f runtime \<Rightarrow> (real \<Rightarrow> string) \<Rightarrow> ('f model \<Rightarrow> solution option) \<Rightarrow> string list option \<Rightarrow>
     (py_exception + string) option" where
  "main rt fmt engine file =
     (case VRPInstance_init rt file of
        Inl e \<Rightarrow> Some (Inl e)
      | Inr inst \<Rightarrow>
          (case VRPSolver_init rt inst of
             Inl e \<Rightarrow> Some (Inl e)
           | Inr solver \<Rightarrow> solve fmt engine inst solver))"

section \<open>Traces and examples\<close>

text \<open>
  \<open>follows row c ns\<close>: from node \<open>c\<close>, taking at every node the first arc whose value is 1
  (what \<^verbatim>\<open>index(1)\<close> returns) visits the nodes \<open>ns\<close> in this order.
\<close>

fun follows :: "(nat \<Rightarrow> real list) \<Rightarrow> nat \<Rightarrow> nat list \<Rightarrow> bool" where
  "follows row c [] \<longleftrightarrow> True"
| "follows row c (x # xs) \<longleftrightarrow> index_of (row c) 1 = Some x \<and> follows row x xs"

text \<open>
  Instances and solutions on which the theorems below are evaluated: an instance with three
  nodes and two vehicles; one whose customer demands 5 from vehicles of capacity 3; one with
  two such customers and one vehicle. Of the solutions, which select the listed arcs, one is
  a tour of vehicle 0 that leaves vehicle 1 unused, one cycles between the customers 1 and
  2 after leaving the depot, one selects two arcs out of the depot, one leaves customer 2
  out, and one has the arcs between the customers 1 and 2 and none at the depot.
\<close>

definition small_instance :: "real vrp_instance" where
  "small_instance =
     \<lparr>num_customers = 3, num_vehicles = 2, vehicle_capacity = 10,
      demand_of_customer = [0, 4, 5], x_coord_of_customer = [0, 3, 0],
      y_coord_of_customer = [0, 0, 4]\<rparr>"

definition overloaded_instance :: "real vrp_instance" where
  "overloaded_instance =
     \<lparr>num_customers = 2, num_vehicles = 1, vehicle_capacity = 3,
      demand_of_customer = [0, 5], x_coord_of_customer = [0, 1],
      y_coord_of_customer = [0, 1]\<rparr>"

definition uncovered_instance :: "real vrp_instance" where
  "uncovered_instance =
     \<lparr>num_customers = 3, num_vehicles = 1, vehicle_capacity = 3,
      demand_of_customer = [0, 5, 5], x_coord_of_customer = [0, 0, 0],
      y_coord_of_customer = [0, 0, 0]\<rparr>"

definition tour_solution :: solution where
  "tour_solution =
     \<lparr>solution_value = (\<lambda>x. if x \<in> set [EdgeVar 0 0 2, EdgeVar 0 2 1, EdgeVar 0 1 0] then 1 else 0),
      objective_value = 12\<rparr>"

definition cycling_solution :: solution where
  "cycling_solution =
     \<lparr>solution_value = (\<lambda>x. if x \<in> set [EdgeVar 0 0 1, EdgeVar 0 1 2, EdgeVar 0 2 1] then 1 else 0),
      objective_value = 0\<rparr>"

definition two_arcs_solution :: solution where
  "two_arcs_solution =
     \<lparr>solution_value = (\<lambda>x. if x \<in> set [EdgeVar 0 0 1, EdgeVar 0 0 2, EdgeVar 0 1 0] then 1 else 0),
      objective_value = 0\<rparr>"

definition uncovered_solution :: solution where
  "uncovered_solution =
     \<lparr>solution_value = (\<lambda>x. if x \<in> set [EdgeVar 0 0 1, EdgeVar 0 1 0] then 1 else 0),
      objective_value = 7\<rparr>"

definition subtour_solution :: solution where
  "subtour_solution =
     \<lparr>solution_value = (\<lambda>x. if x \<in> set [EdgeVar 0 1 2, EdgeVar 0 2 1] then 1 else 0),
      objective_value = 10\<rparr>"

section \<open>Properties of the instance reader\<close>

lemma and_then_Inl [simp]: "and_then (Inl e) f = Inl e"
  by (simp add: and_then_def)

lemma and_then_Inr [simp]: "and_then (Inr x) f = f x"
  by (simp add: and_then_def)

lemma and_then_eq_Inr:
  "and_then r f = Inr y \<longleftrightarrow> (\<exists>x. r = Inr x \<and> f x = Inr y)"
  by (cases r) simp_all

lemma parse_customers_isl:
  "isl (parse_customers rt lines is inst) \<longleftrightarrow>
     (\<exists>i\<in>set is. i + 1 < length lines \<and> isl (parse_customer_data rt (lines ! (i + 1))))"
proof (induction "is" arbitrary: inst)
  case Nil
  show ?case by simp
next
  case (Cons i rest)
  show ?case
  proof (cases "i + 1 < length lines")
    case False
    with Cons show ?thesis by auto
  next
    case present: True
    show ?thesis
    proof (cases "parse_customer_data rt (lines ! (i + 1))")
      case (Inl e)
      with present show ?thesis by auto
    next
      case (Inr t)
      with present Cons show ?thesis by (cases t) auto
    qed
  qed
qed

lemma parse_customers_Inr:
  assumes "parse_customers rt lines is inst = Inr inst'"
  shows "num_customers inst' = num_customers inst \<and> num_vehicles inst' = num_vehicles inst
     \<and> vehicle_capacity inst' = vehicle_capacity inst
     \<and> length (demand_of_customer inst') = length (demand_of_customer inst)
     \<and> length (x_coord_of_customer inst') = length (x_coord_of_customer inst)
     \<and> length (y_coord_of_customer inst') = length (y_coord_of_customer inst)
     \<and> (\<forall>k. \<not> k + 1 < length lines \<longrightarrow>
           demand_of_customer inst' ! k = demand_of_customer inst ! k
         \<and> x_coord_of_customer inst' ! k = x_coord_of_customer inst ! k
         \<and> y_coord_of_customer inst' ! k = y_coord_of_customer inst ! k)"
  using assms
proof (induction "is" arbitrary: inst)
  case Nil
  then show ?case by simp
next
  case (Cons i rest)
  show ?case
  proof (cases "i + 1 < length lines")
    case False
    with Cons show ?thesis by simp
  next
    case present: True
    with Cons.prems obtain d x y where
      rest: "parse_customers rt lines rest
            (inst\<lparr>demand_of_customer := (demand_of_customer inst)[i := d],
                  x_coord_of_customer := (x_coord_of_customer inst)[i := x],
                  y_coord_of_customer := (y_coord_of_customer inst)[i := y]\<rparr>) = Inr inst'"
      by (auto simp: and_then_eq_Inr)
    from Cons.IH[OF rest] present show ?thesis
      by (auto simp: nth_list_update)
  qed
qed








lemma repeat_cases:
  "repeat rt x n = (case repeat_error rt n of Some e \<Rightarrow> Inl e | None \<Rightarrow> Inr (replicate (nat n) x))"
  by (simp add: repeat_def)

lemma VRPInstance_init_Some:
  "VRPInstance_init rt (Some lines) =
     (case parse_first_line rt lines of
        Inl e \<Rightarrow> Inl e
      | Inr (n, nv, cap) \<Rightarrow>
          (case repeat_error rt n of
             Some e \<Rightarrow> Inl e
           | None \<Rightarrow>
               parse_customers rt lines [0..<nat n]
                 \<lparr>num_customers = n, num_vehicles = nv, vehicle_capacity = cap,
                  demand_of_customer = replicate (nat n) 0,
                  x_coord_of_customer = replicate (nat n) (float_zero rt),
                  y_coord_of_customer = replicate (nat n) (float_zero rt)\<rparr>))"
  by (auto simp: VRPInstance_init_def repeat_def split: sum.splits option.splits)

lemma VRPInstance_init_lengths:
  assumes "VRPInstance_init rt file = Inr p"
  shows "length (demand_of_customer p) = nat (num_customers p)
       \<and> length (x_coord_of_customer p) = nat (num_customers p)
       \<and> length (y_coord_of_customer p) = nat (num_customers p)"
proof -
  from assms obtain lines where some: "file = Some lines"
    by (cases "file") (simp_all add: VRPInstance_init_def)
  from assms obtain n nv cap where
    "parse_customers rt lines [0..<nat n]
       \<lparr>num_customers = n, num_vehicles = nv, vehicle_capacity = cap,
        demand_of_customer = replicate (nat n) 0,
        x_coord_of_customer = replicate (nat n) (float_zero rt),
        y_coord_of_customer = replicate (nat n) (float_zero rt)\<rparr> = Inr p"
    unfolding some VRPInstance_init_Some
    by (auto split: sum.splits option.splits)
  from parse_customers_Inr[OF this] show ?thesis
    by simp
qed

text \<open>
  Claim C10, as the code has it. A file whose first line is read as \<open>(n, nv, cap)\<close>, for
  which the lists of \<open>n\<close> elements can be built, and whose customer lines, as far as they
  are present, can be read, is accepted however few lines it has: the instance is built, and
  every customer \<open>i\<close> without a line \<open>i + 1\<close> in the file has demand 0 and coordinates
  (0.0, 0.0).
\<close>

theorem short_file_defaults:
  assumes header: "parse_first_line rt lines = Inr (n, nv, cap)"
    and alloc: "repeat_error rt n = None"
    and wf: "\<forall>i<nat n. i + 1 < length lines \<longrightarrow>
               (\<exists>d x y. parse_customer_data rt (lines ! (i + 1)) = Inr (d, x, y))"
  shows "\<exists>p. VRPInstance_init rt (Some lines) = Inr p
           \<and> num_customers p = n \<and> num_vehicles p = nv \<and> vehicle_capacity p = cap
           \<and> length (demand_of_customer p) = nat n
           \<and> length (x_coord_of_customer p) = nat n
           \<and> length (y_coord_of_customer p) = nat n
           \<and> (\<forall>i<nat n. length lines \<le> i + 1 \<longrightarrow>
                 demand_of_customer p ! i = 0 \<and> x_coord_of_customer p ! i = float_zero rt
               \<and> y_coord_of_customer p ! i = float_zero rt)"
proof -
  let ?init = "\<lparr>num_customers = n, num_vehicles = nv, vehicle_capacity = cap,
               demand_of_customer = replicate (nat n) 0,
               x_coord_of_customer = replicate (nat n) (float_zero rt),
               y_coord_of_customer = replicate (nat n) (float_zero rt)\<rparr>"
  have "\<not> isl (parse_customers rt lines [0..<nat n] ?init)"
    unfolding parse_customers_isl using wf by auto
  then obtain p where p: "parse_customers rt lines [0..<nat n] ?init = Inr p"
    by (cases "parse_customers rt lines [0..<nat n] ?init") auto
  have init: "VRPInstance_init rt (Some lines) = Inr p"
    by (simp add: VRPInstance_init_Some header alloc p)
  from parse_customers_Inr[OF p] init show ?thesis
    by auto
qed

theorem short_file_defaults_witness:
  "parse_first_line py64 [''2 1 7\<newline>'', ''0 1 1\<newline>''] = Inr (2, 1, 7)
   \<and> (\<exists>p. VRPInstance_init py64 (Some [''2 1 7\<newline>'', ''0 1 1\<newline>'']) = Inr p
          \<and> demand_of_customer p ! 1 = 0 \<and> x_coord_of_customer p ! 1 = 0
          \<and> y_coord_of_customer p ! 1 = 0)"
proof -
  have header: "parse_first_line py64 [''2 1 7\<newline>'', ''0 1 1\<newline>''] = Inr (2, 1, 7)"
    by (simp add: parse_first_line_def item_def py_int_def split_def strip_def is_space_def
        py64_def dec_int_def is_digit_def digits_value_def)
  have alloc: "repeat_error py64 2 = None"
    by (simp add: py64_def)
  have data: "parse_customer_data py64 ''0 1 1\<newline>'' = Inr (0, 1, 1)"
    by (simp add: parse_customer_data_def item_def py_int_def py_float_def dec_float_def
        split_def strip_def is_space_def py64_def dec_int_def is_digit_def digits_value_def)
  have wf: "\<forall>i<nat 2. i + 1 < length [''2 1 7\<newline>'', ''0 1 1\<newline>''] \<longrightarrow>
      (\<exists>d x y. parse_customer_data py64
         ([''2 1 7\<newline>'', ''0 1 1\<newline>''] ! (i + 1)) = Inr (d, x, y))"
    using data by simp
  have zero: "float_zero py64 = 0"
    by (simp add: py64_def)
  from short_file_defaults[OF header alloc wf] header show ?thesis
    by (auto simp: zero)
qed

text \<open>
  Claim C10 as stated fails: this file has one line and declares \<open>10 ^ 30\<close> customers; a
  list of that length is beyond the index size, \<^verbatim>\<open>[0] * num_customers\<close> raises
  OverflowError, and no instance is constructed.
\<close>

theorem short_file_overflow_counterexample:
  "VRPInstance_init py64 (Some [''1000000000000000000000000000000 1 1\<newline>''])
     = Inl OverflowError"
proof -
  have "parse_first_line py64 [''1000000000000000000000000000000 1 1\<newline>'']
      = Inr (1000000000000000000000000000000, 1, 1)"
    by (simp add: parse_first_line_def item_def py_int_def split_def strip_def is_space_def
        py64_def dec_int_def is_digit_def digits_value_def)
  moreover have "repeat_error py64 1000000000000000000000000000000 = Some OverflowError"
    by (simp add: py64_def)
  ultimately show ?thesis
    by (simp add: VRPInstance_init_Some)
qed




section \<open>Properties of the model\<close>

lemma and_then_isl:
  "isl (and_then r f) \<longleftrightarrow> isl r \<or> (\<exists>x. r = Inr x \<and> isl (f x))"
  by (cases r) auto

lemma collect_isl: "isl (collect rs) \<longleftrightarrow> (\<exists>r\<in>set rs. isl r)"
proof (induction rs)
  case Nil
  show ?case by simp
next
  case (Cons r rs)
  show ?case
  proof (cases r)
    case (Inl e)
    then show ?thesis by simp
  next
    case (Inr x)
    with Cons show ?thesis
      by (cases "collect rs") auto
  qed
qed

lemma distance_traveled_isl:
  "isl (distance_traveled rt p nv n) \<longleftrightarrow> 0 < nv \<and> (\<exists>i<n. \<exists>j<n. isl (distance rt p i j))"
proof -
  have "isl (and_then (distance rt p i j) (\<lambda>d. Inr (EdgeVar v i j, d))) \<longleftrightarrow> isl (distance rt p i j)"
    for v i j
    by (simp add: and_then_isl)
  then show ?thesis
    unfolding distance_traveled_def collect_isl by fastforce
qed

lemma distance_without_demands:
  "distance rt (p\<lparr>demand_of_customer := demands, vehicle_capacity := cap\<rparr>) i j = distance rt p i j"
  by (simp add: distance_def)

lemma distance_traveled_without_demands:
  "distance_traveled rt (p\<lparr>demand_of_customer := demands, vehicle_capacity := cap\<rparr>) nv n
     = distance_traveled rt p nv n"
  by (simp add: distance_traveled_def distance_without_demands)

lemma VRPSolver_init_Inl_without_demands:
  "VRPSolver_init rt (p\<lparr>demand_of_customer := demands, vehicle_capacity := cap\<rparr>) = Inl e
     \<longleftrightarrow> VRPSolver_init rt p = Inl e"
proof (cases "distance_traveled rt p (nat (num_vehicles p)) (nat (num_customers p))")
  case (Inl e')
  then show ?thesis
    by (simp add: VRPSolver_init_def Let_def distance_traveled_without_demands
        split: option.splits)
next
  case (Inr obj)
  then show ?thesis
    by (simp add: VRPSolver_init_def Let_def distance_traveled_without_demands
        split: option.splits)
qed

lemma VRPSolver_init_Inr_iff:
  "(\<exists>m. VRPSolver_init rt p = Inr m) \<longleftrightarrow>
     zeros_error rt [num_vehicles p, num_customers p, num_customers p] = None
   \<and> zeros_error rt [num_vehicles p, num_customers p] = None
   \<and> 0 \<le> num_vehicles p \<and> 0 \<le> num_customers p
   \<and> \<not> (num_customers p = 0 \<and> 0 < num_vehicles p)
   \<and> \<not> isl (distance_traveled rt p (nat (num_vehicles p)) (nat (num_customers p)))"
proof (cases "distance_traveled rt p (nat (num_vehicles p)) (nat (num_customers p))")
  case (Inl e')
  then show ?thesis
    by (auto simp: VRPSolver_init_def Let_def split: option.splits if_splits)
next
  case (Inr obj)
  then show ?thesis
    by (auto simp: VRPSolver_init_def Let_def split: option.splits if_splits)
qed

lemma VRPSolver_init_Inr:
  assumes "VRPSolver_init rt p = Inr m"
  shows "constraints m =
      flow_constraints (nat (num_vehicles p)) (nat (num_customers p))
      @ depot_constraints (nat (num_vehicles p)) (nat (num_customers p))
      @ capacity_constraints p (nat (num_vehicles p)) (nat (num_customers p))
      @ mtz_constraints p (nat (num_vehicles p)) (nat (num_customers p))"
  using assms
  by (auto simp: VRPSolver_init_def Let_def and_then_eq_Inr split: option.splits if_splits)

lemma VRPSolver_init_Inr_customers:
  assumes "VRPSolver_init rt p = Inr m" and "v < nat (num_vehicles p)"
  shows "0 < nat (num_customers p)"
  using assms VRPSolver_init_Inr_iff[of rt p] by auto

text \<open>At the runtime of the examples, the distance between nodes with small coordinates.\<close>

lemma distance_py64:
  assumes "i < length (x_coord_of_customer p)" and "i < length (y_coord_of_customer p)"
    and "j < length (x_coord_of_customer p)" and "j < length (y_coord_of_customer p)"
    and small: "\<forall>x\<in>set (x_coord_of_customer p) \<union> set (y_coord_of_customer p). \<bar>x\<bar> \<le> 1000"
  shows "distance py64 p i j
     = Inr (sqrt ((x_coord_of_customer p ! i - x_coord_of_customer p ! j)\<^sup>2
                + (y_coord_of_customer p ! i - y_coord_of_customer p ! j)\<^sup>2))"
proof -
  have big: "(2000::real) < 2 ^ 512"
    by simp
  have "\<bar>x_coord_of_customer p ! i\<bar> \<le> 1000" "\<bar>x_coord_of_customer p ! j\<bar> \<le> 1000"
    "\<bar>y_coord_of_customer p ! i\<bar> \<le> 1000" "\<bar>y_coord_of_customer p ! j\<bar> \<le> 1000"
    using assms by simp_all
  then have "\<bar>x_coord_of_customer p ! i - x_coord_of_customer p ! j\<bar> \<le> 2000"
    "\<bar>y_coord_of_customer p ! i - y_coord_of_customer p ! j\<bar> \<le> 2000"
    by linarith+
  with big have dx: "\<not> 2 ^ 512 \<le> \<bar>x_coord_of_customer p ! i - x_coord_of_customer p ! j\<bar>"
    and dy: "\<not> 2 ^ 512 \<le> \<bar>y_coord_of_customer p ! i - y_coord_of_customer p ! j\<bar>"
    by linarith+
  have pos: "\<not> (x_coord_of_customer p ! i - x_coord_of_customer p ! j)\<^sup>2
                + (y_coord_of_customer p ! i - y_coord_of_customer p ! j)\<^sup>2 < 0"
    by (simp add: not_less)
  show ?thesis
    using assms(1-4) dx dy pos
    by (simp add: distance_def item_def py64_def)
qed

lemma VRPSolver_init_py64:
  assumes "1 \<le> num_customers p" and "0 \<le> num_vehicles p"
    and "length (x_coord_of_customer p) = nat (num_customers p)"
    and "length (y_coord_of_customer p) = nat (num_customers p)"
    and "\<forall>x\<in>set (x_coord_of_customer p) \<union> set (y_coord_of_customer p). \<bar>x\<bar> \<le> 1000"
  shows "\<exists>m. VRPSolver_init py64 p = Inr m"
proof -
  have "\<not> isl (distance py64 p i j)"
    if "i < nat (num_customers p)" "j < nat (num_customers p)" for i j
    using distance_py64[of i p j] that assms(3-5) by simp
  then have "\<not> isl (distance_traveled py64 p (nat (num_vehicles p)) (nat (num_customers p)))"
    unfolding distance_traveled_isl by blast
  moreover have "zeros_error py64 [num_vehicles p, num_customers p, num_customers p] = None"
    "zeros_error py64 [num_vehicles p, num_customers p] = None"
    using assms(1,2) by (simp_all add: py64_def)
  ultimately show ?thesis
    unfolding VRPSolver_init_Inr_iff using assms(1,2) by simp
qed

lemma small_instance_built: "\<exists>m. VRPSolver_init py64 small_instance = Inr m"
  by (rule VRPSolver_init_py64) (simp_all add: small_instance_def)

lemma overloaded_instance_built: "\<exists>m. VRPSolver_init py64 overloaded_instance = Inr m"
  by (rule VRPSolver_init_py64) (simp_all add: overloaded_instance_def)

lemma uncovered_instance_built: "\<exists>m. VRPSolver_init py64 uncovered_instance = Inr m"
  by (rule VRPSolver_init_py64) (simp_all add: uncovered_instance_def)

lemma overloaded_instance_read:
  "VRPInstance_init py64 (Some [''2 1 3\<newline>'', ''0 0 0\<newline>'', ''5 1 1\<newline>''])
     = Inr overloaded_instance"
  by (simp add: VRPInstance_init_Some parse_first_line_def parse_customer_data_def item_def
      py_int_def py_float_def dec_float_def split_def strip_def is_space_def py64_def
      dec_int_def is_digit_def digits_value_def upt_rec overloaded_instance_def
      numeral_2_eq_2)

lemma sum_list_concat_map:
  "sum_list (concat (map f xs)) = (\<Sum>x\<leftarrow>xs. sum_list (f x :: int list))"
  by (induction xs) simp_all

lemma eval_Sum_all_cols:
  "sum_list (map (eval a) (all_cols nv n c)) = (\<Sum>v\<leftarrow>[0..<nv]. \<Sum>i\<leftarrow>[0..<n]. a (EdgeVar v i c))"
  by (simp add: all_cols_def edge_col_def map_concat sum_list_concat_map comp_def)

lemma eval_Sum_all_rows:
  "sum_list (map (eval a) (all_rows nv n c)) = (\<Sum>v\<leftarrow>[0..<nv]. \<Sum>j\<leftarrow>[0..<n]. a (EdgeVar v c j))"
  by (simp add: all_rows_def edge_row_def map_concat sum_list_concat_map comp_def)

lemma degree_in_flow_constraints:
  assumes "0 < c" "c < n"
  shows "Constraint (Sum (all_cols nv n c)) EQ (Num 1) \<in> set (flow_constraints nv n)"
    and "Constraint (Sum (all_rows nv n c)) EQ (Num 1) \<in> set (flow_constraints nv n)"
  using assms by (auto simp: flow_constraints_def Let_def intro!: bexI[of _ c])

text \<open>
  Claim C3. For every customer \<open>c\<close> other than the depot, the model has a constraint that
  holds exactly when the arcs into \<open>c\<close>, over all vehicles and all source nodes, sum to 1,
  and one that holds exactly when the arcs out of \<open>c\<close>, over all vehicles and all
  destination nodes, sum to 1.
\<close>

theorem degree_constraints:
  assumes "VRPSolver_init rt p = Inr m" and "0 < c" and "c < nat (num_customers p)"
  shows "(\<exists>ct\<in>set (constraints m). \<forall>a. holds a ct \<longleftrightarrow>
            (\<Sum>v\<leftarrow>[0..<nat (num_vehicles p)]. \<Sum>i\<leftarrow>[0..<nat (num_customers p)].
               a (EdgeVar v i c)) = 1)
       \<and> (\<exists>ct\<in>set (constraints m). \<forall>a. holds a ct \<longleftrightarrow>
            (\<Sum>v\<leftarrow>[0..<nat (num_vehicles p)]. \<Sum>j\<leftarrow>[0..<nat (num_customers p)].
               a (EdgeVar v c j)) = 1)"
proof -
  let ?nv = "nat (num_vehicles p)" and ?n = "nat (num_customers p)"
  let ?inc = "Constraint (Sum (all_cols ?nv ?n c)) EQ (Num 1)"
  let ?out = "Constraint (Sum (all_rows ?nv ?n c)) EQ (Num 1)"
  have "?inc \<in> set (constraints m)" "?out \<in> set (constraints m)"
    using degree_in_flow_constraints[OF assms(2,3)] VRPSolver_init_Inr[OF assms(1)] by simp_all
  moreover have "\<forall>a. holds a ?inc \<longleftrightarrow>
      (\<Sum>v\<leftarrow>[0..<?nv]. \<Sum>i\<leftarrow>[0..<?n]. a (EdgeVar v i c)) = 1"
    by (simp add: eval_Sum_all_cols)
  moreover have "\<forall>a. holds a ?out \<longleftrightarrow>
      (\<Sum>v\<leftarrow>[0..<?nv]. \<Sum>j\<leftarrow>[0..<?n]. a (EdgeVar v c j)) = 1"
    by (simp add: eval_Sum_all_rows)
  ultimately show ?thesis by blast
qed

theorem degree_constraints_witness:
  "\<exists>m. VRPSolver_init py64 small_instance = Inr m
     \<and> (\<exists>ct\<in>set (constraints m). \<forall>a. holds a ct \<longleftrightarrow>
            (\<Sum>v\<leftarrow>[0..<2]. \<Sum>i\<leftarrow>[0..<3]. a (EdgeVar v i 1)) = 1)
     \<and> (\<exists>ct\<in>set (constraints m). \<forall>a. holds a ct \<longleftrightarrow>
            (\<Sum>v\<leftarrow>[0..<2]. \<Sum>j\<leftarrow>[0..<3]. a (EdgeVar v 1 j)) = 1)"
proof -
  obtain m where m: "VRPSolver_init py64 small_instance = Inr m"
    using small_instance_built by blast
  have "(0::nat) < 1" "1 < nat (num_customers small_instance)"
    by (simp_all add: small_instance_def)
  from degree_constraints[OF m this] m
  have "VRPSolver_init py64 small_instance = Inr m
     \<and> (\<exists>ct\<in>set (constraints m). \<forall>a. holds a ct \<longleftrightarrow>
            (\<Sum>v\<leftarrow>[0..<nat 2]. \<Sum>i\<leftarrow>[0..<nat 3]. a (EdgeVar v i 1)) = 1)
     \<and> (\<exists>ct\<in>set (constraints m). \<forall>a. holds a ct \<longleftrightarrow>
            (\<Sum>v\<leftarrow>[0..<nat 2]. \<Sum>j\<leftarrow>[0..<nat 3]. a (EdgeVar v 1 j)) = 1)"
    by (simp add: small_instance_def)
  then show ?thesis
    by (intro exI[of _ m]) simp
qed

lemma order_notin_edge_row: "OrderVar u k \<notin> set (concat (map vars_of (edge_row n v c)))"
  by (auto simp: edge_row_def)

lemma order_notin_edge_col: "OrderVar u k \<notin> set (concat (map vars_of (edge_col n v c)))"
  by (auto simp: edge_col_def)

lemma order_notin_all_rows: "OrderVar u k \<notin> set (concat (map vars_of (all_rows nv n c)))"
  by (auto simp: all_rows_def edge_row_def)

lemma order_notin_all_cols: "OrderVar u k \<notin> set (concat (map vars_of (all_cols nv n c)))"
  by (auto simp: all_cols_def edge_col_def)

lemma order_notin_scal_prod: "OrderVar u k \<notin> set (vars_of (scal_prod (edge_row n v c) coefs))"
  by (auto simp: scal_prod_def edge_row_def dest!: set_zip_leftD)

lemma order_notin_flow:
  "ct \<in> set (flow_constraints nv n) \<Longrightarrow> OrderVar u k \<notin> set (constraint_vars ct)"
  using order_notin_edge_row order_notin_edge_col order_notin_all_rows order_notin_all_cols
  by (auto simp: flow_constraints_def Let_def split: if_splits)

lemma order_notin_depot:
  "ct \<in> set (depot_constraints nv n) \<Longrightarrow> OrderVar u k \<notin> set (constraint_vars ct)"
  using order_notin_edge_row order_notin_edge_col
  by (auto simp: depot_constraints_def)

lemma order_notin_capacity:
  "ct \<in> set (capacity_constraints p nv n) \<Longrightarrow> OrderVar u k \<notin> set (constraint_vars ct)"
  using order_notin_scal_prod
  by (auto simp: capacity_constraints_def total_demand_served_def)

lemma depot_order_notin_mtz:
  "ct \<in> set (mtz_constraints p nv n) \<Longrightarrow> OrderVar u 0 \<notin> set (constraint_vars ct)"
  by (auto simp: mtz_constraints_def)

lemma in_concat_map:
  "x \<in> set xs \<Longrightarrow> y \<in> set (f x) \<Longrightarrow> y \<in> set (concat (map f xs))"
  by auto

lemma mtz_in_mtz_constraints:
  assumes "v < nv" "0 < i" "i < n" "0 < j" "j < n"
  shows "Constraint (Var (OrderVar v i)) GE
          (Sub (Add (Var (OrderVar v j)) (Num 1))
               (Scale (num_customers p) (Sub (Num 1) (Var (EdgeVar v i j)))))
         \<in> set (mtz_constraints p nv n)"
proof -
  have v: "v \<in> set [0..<nv]" and i: "i \<in> set [1..<n]" and j: "j \<in> set [1..<n]"
    using assms by simp_all
  show ?thesis
    unfolding mtz_constraints_def
    by (rule in_concat_map[OF v], rule in_concat_map[OF i]) (use assms in \<open>simp add: image_iff Suc_le_eq\<close>)
qed

text \<open>
  Claim C2. For every vehicle \<open>v\<close> and all customers \<open>i\<close>, \<open>j\<close> other than the depot, the
  model contains the constraint
  \<open>order_var[v][i] \<ge> order_var[v][j] + 1 - num_customers * (1 - edge_var[v][i][j])\<close>,
  and the order variable of the depot, \<open>order_var[u][0]\<close>, occurs in no constraint of the
  model.
\<close>

theorem mtz_constraints_non_depot:
  assumes "VRPSolver_init rt p = Inr m"
    and "v < nat (num_vehicles p)"
    and "0 < i" and "i < nat (num_customers p)"
    and "0 < j" and "j < nat (num_customers p)"
  shows "Constraint (Var (OrderVar v i)) GE
           (Sub (Add (Var (OrderVar v j)) (Num 1))
                (Scale (num_customers p) (Sub (Num 1) (Var (EdgeVar v i j)))))
          \<in> set (constraints m)
       \<and> (\<forall>ct\<in>set (constraints m). \<forall>u. OrderVar u 0 \<notin> set (constraint_vars ct))"
proof
  show "Constraint (Var (OrderVar v i)) GE
           (Sub (Add (Var (OrderVar v j)) (Num 1))
                (Scale (num_customers p) (Sub (Num 1) (Var (EdgeVar v i j)))))
          \<in> set (constraints m)"
    using mtz_in_mtz_constraints[OF assms(2-6), of p] VRPSolver_init_Inr[OF assms(1)] by simp
  show "\<forall>ct\<in>set (constraints m). \<forall>u. OrderVar u 0 \<notin> set (constraint_vars ct)"
  proof (intro ballI allI)
    fix ct u
    assume "ct \<in> set (constraints m)"
    then consider
        "ct \<in> set (flow_constraints (nat (num_vehicles p)) (nat (num_customers p)))"
      | "ct \<in> set (depot_constraints (nat (num_vehicles p)) (nat (num_customers p)))"
      | "ct \<in> set (capacity_constraints p (nat (num_vehicles p)) (nat (num_customers p)))"
      | "ct \<in> set (mtz_constraints p (nat (num_vehicles p)) (nat (num_customers p)))"
      unfolding VRPSolver_init_Inr[OF assms(1)] by auto
    then show "OrderVar u 0 \<notin> set (constraint_vars ct)"
      by cases (simp_all add: order_notin_flow order_notin_depot order_notin_capacity
          depot_order_notin_mtz)
  qed
qed

theorem mtz_constraints_non_depot_witness:
  "\<exists>m. VRPSolver_init py64 small_instance = Inr m
     \<and> Constraint (Var (OrderVar 1 1)) GE
           (Sub (Add (Var (OrderVar 1 2)) (Num 1))
                (Scale 3 (Sub (Num 1) (Var (EdgeVar 1 1 2)))))
          \<in> set (constraints m)
     \<and> (\<forall>ct\<in>set (constraints m). \<forall>u. OrderVar u 0 \<notin> set (constraint_vars ct))"
proof -
  obtain m where m: "VRPSolver_init py64 small_instance = Inr m"
    using small_instance_built by blast
  have "(1::nat) < nat (num_vehicles small_instance)"
    "(0::nat) < 1" "1 < nat (num_customers small_instance)"
    "(0::nat) < 2" "2 < nat (num_customers small_instance)"
    by (simp_all add: small_instance_def)
  from mtz_constraints_non_depot[OF m this] m show ?thesis
    by (intro exI[of _ m]) (simp add: small_instance_def)
qed

lemma zip_map_upt:
  "length ys = n \<Longrightarrow> zip (map f [0..<n]) ys = map (\<lambda>j. (f j, ys ! j)) [0..<n]"
  by (rule nth_equalityI) auto

lemma scal_prod_edge_row:
  "length d = n \<Longrightarrow>
     scal_prod (edge_row n v c) d = Sum (map (\<lambda>j. Scale (d ! j) (Var (EdgeVar v c j))) [0..<n])"
  by (simp add: scal_prod_def edge_row_def zip_map_upt comp_def)

lemma eval_total_demand_served:
  assumes "length (demand_of_customer p) = n"
  shows "sum_list (map (eval a) (total_demand_served p n v))
     = (\<Sum>c\<leftarrow>[0..<n]. \<Sum>j\<leftarrow>[0..<n]. demand_of_customer p ! j * a (EdgeVar v c j))"
  by (simp add: total_demand_served_def scal_prod_edge_row[OF assms] comp_def)

lemma flow_constraints_EQ:
  "ct \<in> set (flow_constraints nv n) \<Longrightarrow> \<exists>l r. ct = Constraint l EQ r"
  by (auto simp: flow_constraints_def Let_def split: if_splits)

lemma mtz_constraints_GE:
  "ct \<in> set (mtz_constraints p nv n) \<Longrightarrow> \<exists>l r. ct = Constraint l GE r"
  by (auto simp: mtz_constraints_def)

lemma total_demand_served_not_vars:
  assumes "0 < n"
  shows "total_demand_served p n v \<noteq> edge_row n v' c"
    and "total_demand_served p n v \<noteq> edge_col n v' c"
proof -
  have "total_demand_served p n v ! 0 = scal_prod (edge_row n v 0) (demand_of_customer p)"
    using assms by (simp add: total_demand_served_def)
  moreover have "edge_row n v' c ! 0 = Var (EdgeVar v' c 0)"
      "edge_col n v' c ! 0 = Var (EdgeVar v' 0 c)"
    using assms by (simp_all add: edge_row_def edge_col_def)
  ultimately show "total_demand_served p n v \<noteq> edge_row n v' c"
    and "total_demand_served p n v \<noteq> edge_col n v' c"
    by (auto simp: scal_prod_def)
qed

lemma capacity_notin_depot:
  assumes "0 < n"
  shows "Constraint (Sum (total_demand_served p n v)) LE r \<notin> set (depot_constraints nv n)"
  using total_demand_served_not_vars[OF assms, of p v]
  by (auto simp: depot_constraints_def)

lemma total_demand_served_inj:
  assumes "0 < n" and "length (demand_of_customer p) = n"
    and "total_demand_served p n v = total_demand_served p n v'"
  shows "v = v'"
proof -
  from assms(3) have "total_demand_served p n v ! 0 = total_demand_served p n v' ! 0"
    by simp
  then have "scal_prod (edge_row n v 0) (demand_of_customer p)
      = scal_prod (edge_row n v' 0) (demand_of_customer p)"
    using assms(1) by (simp add: total_demand_served_def)
  then have "map (\<lambda>j. Scale (demand_of_customer p ! j) (Var (EdgeVar v 0 j))) [0..<n]
      = map (\<lambda>j. Scale (demand_of_customer p ! j) (Var (EdgeVar v' 0 j))) [0..<n]"
    by (simp add: scal_prod_edge_row[OF assms(2)])
  then have "map (\<lambda>j. Scale (demand_of_customer p ! j) (Var (EdgeVar v 0 j))) [0..<n] ! 0
      = map (\<lambda>j. Scale (demand_of_customer p ! j) (Var (EdgeVar v' 0 j))) [0..<n] ! 0"
    by (rule arg_cong)
  then show ?thesis
    using assms(1) by simp
qed

lemma count_list_distinct:
  "distinct xs \<Longrightarrow> x \<in> set xs \<Longrightarrow> count_list xs x = 1"
  by (induction xs) (auto simp: count_list_0_iff)

lemma count_capacity_constraints:
  assumes "v < nv" and "0 < n" and "length (demand_of_customer p) = n"
  shows "count_list (capacity_constraints p nv n)
           (Constraint (Sum (total_demand_served p n v)) LE (Num (vehicle_capacity p))) = 1"
proof -
  let ?f = "\<lambda>v. Constraint (Sum (total_demand_served p n v)) LE (Num (vehicle_capacity p))"
  have "inj_on ?f (set [0..<nv])"
    using total_demand_served_inj[OF assms(2,3)] by (auto simp: inj_on_def)
  moreover have "v \<in> set [0..<nv]"
    using assms(1) by simp
  ultimately have "count_list (map ?f [0..<nv]) (?f v) = count_list [0..<nv] v"
    by (rule count_list_inj_map)
  also have "\<dots> = 1"
    using assms(1) by (simp add: count_list_distinct)
  finally show ?thesis
    by (simp add: capacity_constraints_def)
qed

text \<open>
  Claim C1, as the code has it. For every vehicle \<open>v\<close>, exactly one constraint of the model
  is the capacity constraint of \<open>v\<close>, and it states that the sum over all nodes \<open>c\<close> and \<open>j\<close>
  of \<open>demand[j] * edge_var[v][c][j]\<close> is at most \<open>vehicle_capacity\<close>: every arc is weighted
  by the demand of the node it enters, since \<open>scal_prod\<close> pairs the row \<open>edge_var[v, c, :]\<close>
  with the list of demands.
\<close>

theorem capacity_constraint_per_vehicle:
  assumes "VRPSolver_init rt p = Inr m"
    and "v < nat (num_vehicles p)"
    and "length (demand_of_customer p) = nat (num_customers p)"
  shows "\<exists>ct. count_list (constraints m) ct = 1
          \<and> (\<forall>a. holds a ct \<longleftrightarrow>
                (\<Sum>c\<leftarrow>[0..<nat (num_customers p)]. \<Sum>j\<leftarrow>[0..<nat (num_customers p)].
                   demand_of_customer p ! j * a (EdgeVar v c j)) \<le> vehicle_capacity p)"
proof -
  let ?nv = "nat (num_vehicles p)" and ?n = "nat (num_customers p)"
  let ?ct = "Constraint (Sum (total_demand_served p ?n v)) LE (Num (vehicle_capacity p))"
  have n: "0 < ?n"
    using assms(1,2) by (rule VRPSolver_init_Inr_customers)
  have "?ct \<notin> set (flow_constraints ?nv ?n)"
    using flow_constraints_EQ by blast
  moreover have "?ct \<notin> set (mtz_constraints p ?nv ?n)"
    using mtz_constraints_GE by blast
  moreover have "?ct \<notin> set (depot_constraints ?nv ?n)"
    by (rule capacity_notin_depot[OF n])
  ultimately have "count_list (constraints m) ?ct = 1"
    unfolding VRPSolver_init_Inr[OF assms(1)]
    by (simp add: count_capacity_constraints[OF assms(2) n assms(3)] count_list_0_iff)
  moreover have "\<forall>a. holds a ?ct \<longleftrightarrow>
      (\<Sum>c\<leftarrow>[0..<?n]. \<Sum>j\<leftarrow>[0..<?n]. demand_of_customer p ! j * a (EdgeVar v c j))
        \<le> vehicle_capacity p"
    by (simp add: eval_total_demand_served[OF assms(3)])
  ultimately show ?thesis by blast
qed

theorem capacity_constraint_per_vehicle_witness:
  "\<exists>m. VRPSolver_init py64 small_instance = Inr m
     \<and> (\<exists>ct. count_list (constraints m) ct = 1
          \<and> (\<forall>a. holds a ct \<longleftrightarrow>
                (\<Sum>c\<leftarrow>[0..<3]. \<Sum>j\<leftarrow>[0..<3]. [0, 4, 5] ! j * a (EdgeVar 1 c j)) \<le> 10))"
proof -
  obtain m where m: "VRPSolver_init py64 small_instance = Inr m"
    using small_instance_built by blast
  have "(1::nat) < nat (num_vehicles small_instance)"
    "length (demand_of_customer small_instance) = nat (num_customers small_instance)"
    by (simp_all add: small_instance_def)
  from capacity_constraint_per_vehicle[OF m this] m
  have "VRPSolver_init py64 small_instance = Inr m
     \<and> (\<exists>ct. count_list (constraints m) ct = 1
          \<and> (\<forall>a. holds a ct \<longleftrightarrow>
                (\<Sum>c\<leftarrow>[0..<nat 3]. \<Sum>j\<leftarrow>[0..<nat 3]. [0, 4, 5] ! j * a (EdgeVar 1 c j)) \<le> 10))"
    by (simp add: small_instance_def)
  then show ?thesis
    by (intro exI[of _ m]) simp
qed

text \<open>
  Claim C1 as stated fails: with demands 0 and 5, no constraint of the model is equivalent
  to the sum of \<open>demand[c] * edge_var[0][c][j]\<close> being at most the capacity.
\<close>

theorem capacity_weighted_by_source_counterexample:
  "\<exists>m. VRPSolver_init py64 overloaded_instance = Inr m
     \<and> \<not> (\<exists>ct\<in>set (constraints m). \<forall>a. holds a ct \<longleftrightarrow>
            (\<Sum>c\<leftarrow>[0..<2]. \<Sum>j\<leftarrow>[0..<2].
               demand_of_customer overloaded_instance ! c * a (EdgeVar 0 c j))
              \<le> vehicle_capacity overloaded_instance)"
proof -
  obtain m where m: "VRPSolver_init py64 overloaded_instance = Inr m"
    using overloaded_instance_built by blast
  let ?X = "\<lambda>a. (\<Sum>c\<leftarrow>[0..<2]. \<Sum>j\<leftarrow>[0..<2].
               demand_of_customer overloaded_instance ! c * a (EdgeVar 0 c j))
              \<le> vehicle_capacity overloaded_instance"
  define z where "z = (\<lambda>x::var. 0::int)"
  define b where "b = (\<lambda>x. if x = EdgeVar 0 1 0 \<or> x = EdgeVar 0 0 1 then 3 else 0::int)"
  define c where "c = (\<lambda>x. if x = EdgeVar 0 1 0 then 3 else 0::int)"
  define d where "d = (\<lambda>x. if x = EdgeVar 0 0 0 then 3 else 0::int)"
  have X: "?X z" "\<not> ?X b" "\<not> ?X c" "?X d"
    by (simp_all add: overloaded_instance_def upt_rec z_def b_def c_def d_def)
  have sep: "\<forall>ct\<in>set (constraints m).
      \<not> holds z ct \<or> holds b ct \<or> holds c ct \<or> \<not> holds d ct"
    unfolding VRPSolver_init_Inr[OF m]
    by (simp add: overloaded_instance_def flow_constraints_def depot_constraints_def
        capacity_constraints_def mtz_constraints_def total_demand_served_def scal_prod_def
        all_cols_def all_rows_def edge_col_def edge_row_def upt_rec Let_def
        z_def b_def c_def d_def)
  have "\<not> (\<exists>ct\<in>set (constraints m). \<forall>a. holds a ct \<longleftrightarrow> ?X a)"
  proof
    assume "\<exists>ct\<in>set (constraints m). \<forall>a. holds a ct \<longleftrightarrow> ?X a"
    then obtain ct where ct: "ct \<in> set (constraints m)" and eq: "\<forall>a. holds a ct \<longleftrightarrow> ?X a"
      by blast
    from eq X have "holds z ct" "\<not> holds b ct" "\<not> holds c ct" "holds d ct"
      by blast+
    with sep ct show False by blast
  qed
  with m show ?thesis by blast
qed

text \<open>
  Claim C5, as the code has it. The constructor checks nothing about the instance: whether
  it fails, and with which exception, is the same whatever the demands and the capacity are.
  It fails when \<open>num_customers\<close> or \<open>num_vehicles\<close> is negative, and with an IndexError when
  the arrays are allocated for no customer and at least one vehicle. For an instance read
  from a file, with at least one vehicle, the model is built exactly when there is at least
  one customer, \<open>np.zeros\<close> allocates the two arrays of variables, and \<open>distance\<close> raises
  for no pair of nodes; and \<open>main\<close> hands every model that is built to the solver. The
  modelling library is taken to accept the variables and constraints it is given.
\<close>

theorem no_configuration_check:
  "(\<forall>demands cap e. length demands = length (demand_of_customer p) \<longrightarrow>
       (VRPSolver_init rt (p\<lparr>demand_of_customer := demands, vehicle_capacity := cap\<rparr>) = Inl e
          \<longleftrightarrow> VRPSolver_init rt p = Inl e))
   \<and> (num_customers p < 0 \<or> num_vehicles p < 0 \<longrightarrow> isl (VRPSolver_init rt p))
   \<and> (num_customers p = 0 \<and> 1 \<le> num_vehicles p
        \<and> zeros_error rt [num_vehicles p, num_customers p, num_customers p] = None
        \<and> zeros_error rt [num_vehicles p, num_customers p] = None \<longrightarrow>
        VRPSolver_init rt p = Inl IndexError)
   \<and> (1 \<le> num_vehicles p \<and> VRPInstance_init rt file = Inr p \<longrightarrow>
        ((\<exists>m. VRPSolver_init rt p = Inr m) \<longleftrightarrow>
            1 \<le> num_customers p
          \<and> zeros_error rt [num_vehicles p, num_customers p, num_customers p] = None
          \<and> zeros_error rt [num_vehicles p, num_customers p] = None
          \<and> (\<forall>i<nat (num_customers p). \<forall>j<nat (num_customers p). \<not> isl (distance rt p i j)))
        \<and> (\<forall>m. VRPSolver_init rt p = Inr m \<longrightarrow>
              (\<forall>fmt engine. main rt fmt engine file = solve fmt engine p m)))"
proof (intro conjI allI impI)
  fix demands cap e
  show "VRPSolver_init rt (p\<lparr>demand_of_customer := demands, vehicle_capacity := cap\<rparr>) = Inl e
          \<longleftrightarrow> VRPSolver_init rt p = Inl e"
    by (rule VRPSolver_init_Inl_without_demands)
next
  assume "num_customers p < 0 \<or> num_vehicles p < 0"
  then have "\<not> (\<exists>m. VRPSolver_init rt p = Inr m)"
    unfolding VRPSolver_init_Inr_iff by auto
  then show "isl (VRPSolver_init rt p)"
    by (cases "VRPSolver_init rt p") auto
next
  assume "num_customers p = 0 \<and> 1 \<le> num_vehicles p
        \<and> zeros_error rt [num_vehicles p, num_customers p, num_customers p] = None
        \<and> zeros_error rt [num_vehicles p, num_customers p] = None"
  then show "VRPSolver_init rt p = Inl IndexError"
    by (auto simp: VRPSolver_init_def)
next
  assume read: "1 \<le> num_vehicles p \<and> VRPInstance_init rt file = Inr p"
  then have "0 < nat (num_vehicles p)"
    by simp
  with read show "(\<exists>m. VRPSolver_init rt p = Inr m) \<longleftrightarrow>
            1 \<le> num_customers p
          \<and> zeros_error rt [num_vehicles p, num_customers p, num_customers p] = None
          \<and> zeros_error rt [num_vehicles p, num_customers p] = None
          \<and> (\<forall>i<nat (num_customers p). \<forall>j<nat (num_customers p). \<not> isl (distance rt p i j))"
    unfolding VRPSolver_init_Inr_iff distance_traveled_isl by auto
next
  fix m fmt engine
  assume "1 \<le> num_vehicles p \<and> VRPInstance_init rt file = Inr p"
    and "VRPSolver_init rt p = Inr m"
  then show "main rt fmt engine file = solve fmt engine p m"
    by (simp add: main_def)
qed

theorem no_configuration_check_witness:
  "\<exists>m. VRPSolver_init py64 overloaded_instance = Inr m
     \<and> (\<forall>fmt engine.
           main py64 fmt engine (Some [''2 1 3\<newline>'', ''0 0 0\<newline>'', ''5 1 1\<newline>''])
           = solve fmt engine overloaded_instance m)"
proof -
  have "1 \<le> num_vehicles overloaded_instance"
    by (simp add: overloaded_instance_def)
  with overloaded_instance_read overloaded_instance_built show ?thesis
    using no_configuration_check
      [of overloaded_instance py64 "Some [''2 1 3\<newline>'', ''0 0 0\<newline>'', ''5 1 1\<newline>'']"]
    by blast
qed

text \<open>
  Claim C5 as stated fails: the file below has a customer of demand 5 and vehicles of
  capacity 3; the instance is read, the model is built, and the run ends with the solver
  finding no solution.
\<close>

theorem overloaded_instance_reaches_solver_counterexample:
  "VRPInstance_init py64 (Some [''2 1 3\<newline>'', ''0 0 0\<newline>'', ''5 1 1\<newline>''])
     = Inr overloaded_instance
   \<and> vehicle_capacity overloaded_instance < demand_of_customer overloaded_instance ! 1
   \<and> \<not> isl (VRPSolver_init py64 overloaded_instance)
   \<and> main py64 (\<lambda>obj. []) (\<lambda>m. None)
        (Some [''2 1 3\<newline>'', ''0 0 0\<newline>'', ''5 1 1\<newline>''])
      = Some (Inl Exception_no_solution_found)"
proof -
  obtain m where m: "VRPSolver_init py64 overloaded_instance = Inr m"
    using overloaded_instance_built by blast
  then have build: "\<not> isl (VRPSolver_init py64 overloaded_instance)"
    by simp
  have "main py64 (\<lambda>obj. []) (\<lambda>m. None)
        (Some [''2 1 3\<newline>'', ''0 0 0\<newline>'', ''5 1 1\<newline>''])
      = Some (Inl Exception_no_solution_found)"
    by (simp add: main_def overloaded_instance_read m solve_def)
  moreover have "vehicle_capacity overloaded_instance < demand_of_customer overloaded_instance ! 1"
    by (simp add: overloaded_instance_def)
  ultimately show ?thesis
    using overloaded_instance_read build by blast
qed

section \<open>Properties of the decoder\<close>

lemma index_of_Some:
  "index_of xs v = Some i \<Longrightarrow> i < length xs \<and> xs ! i = v \<and> (\<forall>k<i. xs ! k \<noteq> v)"
proof (induction xs arbitrary: i)
  case Nil
  then show ?case by simp
next
  case (Cons y ys)
  show ?case
  proof (cases "y = v")
    case True
    with Cons.prems show ?thesis by simp
  next
    case False
    with Cons.prems obtain i' where i': "index_of ys v = Some i'" "i = Suc i'"
      by auto
    from Cons.IH[OF i'(1)] i'(2) False show ?thesis
      by (auto simp: nth_Cons split: nat.splits)
  qed
qed

lemma index_of_first:
  "i < length xs \<Longrightarrow> xs ! i = v \<Longrightarrow> \<forall>k<i. xs ! k \<noteq> v \<Longrightarrow> index_of xs v = Some i"
proof (induction xs arbitrary: i)
  case Nil
  then show ?case by simp
next
  case (Cons y ys)
  show ?case
  proof (cases i)
    case 0
    with Cons.prems show ?thesis by simp
  next
    case (Suc i')
    with Cons.prems have "y \<noteq> v" by auto
    moreover have "index_of ys v = Some i'"
      using Cons.prems Suc by (intro Cons.IH) auto
    ultimately show ?thesis using Suc by simp
  qed
qed

lemma index_of_None: "index_of xs v = None \<longleftrightarrow> v \<notin> set xs"
  by (induction xs) auto

lemma str_nat_0: "str_nat 0 = ''0''"
  by simp

lemma trace_route_sound:
  assumes "trace_route row c r = Some res"
  shows "case res of
           Inr route \<Rightarrow> \<exists>ns. follows row c (ns @ [0]) \<and> 0 \<notin> set ns
                          \<and> route = r @ map str_nat (ns @ [0])
         | Inl e \<Rightarrow> e = ValueError_not_in_list
                    \<and> (\<exists>ns. follows row c ns \<and> 0 \<notin> set ns
                            \<and> index_of (row (last (c # ns))) 1 = None)"
proof (rule trace_route.raw_induct[where P = "\<lambda>row c r res. case res of
           Inr route \<Rightarrow> \<exists>ns. follows row c (ns @ [0]) \<and> 0 \<notin> set ns
                          \<and> route = r @ map str_nat (ns @ [0])
         | Inl e \<Rightarrow> e = ValueError_not_in_list
                    \<and> (\<exists>ns. follows row c ns \<and> 0 \<notin> set ns
                            \<and> index_of (row (last (c # ns))) 1 = None)", OF _ assms])
  fix tr row c r res
  assume IH: "\<And>row c r res. tr row c r = Some res \<Longrightarrow> case res of
           Inr route \<Rightarrow> \<exists>ns. follows row c (ns @ [0]) \<and> 0 \<notin> set ns
                          \<and> route = r @ map str_nat (ns @ [0])
         | Inl e \<Rightarrow> e = ValueError_not_in_list
                    \<and> (\<exists>ns. follows row c ns \<and> 0 \<notin> set ns
                            \<and> index_of (row (last (c # ns))) 1 = None)"
    and step: "(case index_of (row c) 1 of
        None \<Rightarrow> Some (Inl ValueError_not_in_list)
      | Some next_node \<Rightarrow>
          (if next_node = 0 then Some (Inr (r @ [str_nat next_node]))
           else tr row next_node (r @ [str_nat next_node]))) = Some res"
  show "case res of
           Inr route \<Rightarrow> \<exists>ns. follows row c (ns @ [0]) \<and> 0 \<notin> set ns
                          \<and> route = r @ map str_nat (ns @ [0])
         | Inl e \<Rightarrow> e = ValueError_not_in_list
                    \<and> (\<exists>ns. follows row c ns \<and> 0 \<notin> set ns
                            \<and> index_of (row (last (c # ns))) 1 = None)"
  proof (cases "index_of (row c) 1")
    case None
    with step have "res = Inl ValueError_not_in_list" by simp
    moreover have "follows row c [] \<and> 0 \<notin> set [] \<and> index_of (row (last (c # []))) 1 = None"
      using None by simp
    ultimately show ?thesis
      by (simp only: sum.case) blast
  next
    case (Some x)
    show ?thesis
    proof (cases "x = 0")
      case True
      with Some step have "res = Inr (r @ [str_nat 0])" by auto
      moreover have "follows row c ([] @ [0])" using Some True by simp
      ultimately show ?thesis
        by (auto intro!: exI[of _ "[]"])
    next
      case False
      with Some step have rec: "tr row x (r @ [str_nat x]) = Some res" by simp
      show ?thesis
      proof (cases res)
        case (Inl e)
        with IH[OF rec] obtain ns where ns: "e = ValueError_not_in_list" "follows row x ns"
          "0 \<notin> set ns" "index_of (row (last (x # ns))) 1 = None"
          by auto
        then have "follows row c (x # ns) \<and> 0 \<notin> set (x # ns)
            \<and> index_of (row (last (c # x # ns))) 1 = None"
          using Some False by simp
        with Inl ns(1) show ?thesis
          by (simp only: sum.case) blast
      next
        case (Inr route)
        with IH[OF rec] obtain ns where ns: "follows row x (ns @ [0])" "0 \<notin> set ns"
          "route = (r @ [str_nat x]) @ map str_nat (ns @ [0])"
          by auto
        then have "follows row c ((x # ns) @ [0])" "0 \<notin> set (x # ns)"
          "route = r @ map str_nat ((x # ns) @ [0])"
          using Some False by simp_all
        with Inr show ?thesis
          by (simp only: sum.case) blast
      qed
    qed
  qed
qed

lemma trace_route_complete:
  "follows row c (ns @ [0]) \<Longrightarrow> 0 \<notin> set ns \<Longrightarrow>
     trace_route row c r = Some (Inr (r @ map str_nat (ns @ [0])))"
proof (induction ns arbitrary: c r)
  case Nil
  then show ?case by (simp add: trace_route.simps)
next
  case (Cons x xs)
  then have "index_of (row c) 1 = Some x" "x \<noteq> 0" "follows row x (xs @ [0])" "0 \<notin> set xs"
    by auto
  with Cons.IH[of x "r @ [str_nat x]"] show ?case
    by (subst trace_route.simps) simp
qed

lemma trace_route_dead_end:
  "follows row c ns \<Longrightarrow> 0 \<notin> set ns \<Longrightarrow> index_of (row (last (c # ns))) 1 = None \<Longrightarrow>
     trace_route row c r = Some (Inl ValueError_not_in_list)"
proof (induction ns arbitrary: c r)
  case Nil
  then show ?case by (simp add: trace_route.simps)
next
  case (Cons x xs)
  then have "index_of (row c) 1 = Some x" "x \<noteq> 0" "follows row x xs" "0 \<notin> set xs"
    "index_of (row (last (x # xs))) 1 = None"
    by auto
  with Cons.IH[of x "r @ [str_nat x]"] show ?case
    by (subst trace_route.simps) simp
qed

lemma follows_append:
  "follows row c (xs @ ys) \<longleftrightarrow> follows row c xs \<and> follows row (last (c # xs)) ys"
  by (induction xs arbitrary: c) auto

lemma follows_prefix:
  "follows row c xs \<Longrightarrow> follows row c ys \<Longrightarrow> length xs \<le> length ys \<Longrightarrow>
     take (length xs) ys = xs"
proof (induction xs arbitrary: c ys)
  case Nil
  show ?case by simp
next
  case (Cons x xs)
  then obtain y ys' where ys: "ys = y # ys'"
    by (cases ys) auto
  with Cons.prems have "x = y" "follows row x xs" "follows row x ys'" "length xs \<le> length ys'"
    by auto
  with Cons.IH[of x ys'] ys show ?case
    by simp
qed

lemma trace_route_None_chain:
  assumes "trace_route row c r = None"
  shows "\<exists>ns. length ns = k \<and> follows row c ns \<and> 0 \<notin> set ns"
proof (induction k)
  case 0
  show ?case by simp
next
  case (Suc k)
  then obtain ns where ns: "length ns = k" "follows row c ns" "0 \<notin> set ns"
    by blast
  show ?case
  proof (cases "index_of (row (last (c # ns))) 1")
    case None
    from trace_route_dead_end[OF ns(2,3) None, of r] assms show ?thesis
      by simp
  next
    case (Some x)
    then have ext: "follows row c (ns @ [x])"
      using ns(2) by (simp add: follows_append)
    show ?thesis
    proof (cases "x = 0")
      case True
      with ext trace_route_complete[OF _ ns(3), of row c r] assms show ?thesis
        by simp
    next
      case False
      with ext ns(1,3) show ?thesis
        by (intro exI[of _ "ns @ [x]"]) simp
    qed
  qed
qed

lemma follows_next_in:
  "follows row c zs \<Longrightarrow> u \<in> set (butlast (c # zs)) \<Longrightarrow>
     \<exists>w\<in>set zs. index_of (row u) 1 = Some w"
proof (induction zs arbitrary: c)
  case Nil
  then show ?case by simp
next
  case (Cons z zs)
  show ?case
  proof (cases "u = c")
    case True
    with Cons.prems show ?thesis by simp
  next
    case False
    with Cons.prems have "u \<in> set (butlast (z # zs))" "follows row z zs"
      by (auto split: if_splits)
    from Cons.IH[OF this(2,1)] show ?thesis by auto
  qed
qed

lemma follows_distinct:
  "follows row c (ns @ [0]) \<Longrightarrow> 0 \<notin> set ns \<Longrightarrow> distinct (c # ns)"
proof (induction ns arbitrary: c)
  case Nil
  then show ?case by simp
next
  case (Cons x xs)
  then have nx: "index_of (row c) 1 = Some x" and f: "follows row x (xs @ [0])"
    and x0: "x \<noteq> 0" and z: "0 \<notin> set xs"
    by auto
  from Cons.IH[OF f z] have d: "distinct (x # xs)" .
  have "c \<notin> set (x # xs)"
  proof
    assume "c \<in> set (x # xs)"
    then have "c \<in> set (butlast (x # (xs @ [0])))"
      by (simp add: butlast_append)
    from follows_next_in[OF f this] nx have "x \<in> set (xs @ [0])"
      by auto
    with d x0 show False by auto
  qed
  with d show ?case by simp
qed

lemma follows_bounded:
  "follows row c ns \<Longrightarrow> \<forall>u. length (row u) = n \<Longrightarrow> \<forall>x\<in>set ns. x < n"
proof (induction ns arbitrary: c)
  case Nil
  then show ?case by simp
next
  case (Cons x xs)
  then have "index_of (row c) 1 = Some x" "follows row x xs" by auto
  with Cons.IH[of x] Cons.prems(2) index_of_Some[of "row c" 1 x] show ?case
    by auto
qed

lemma follows_length:
  assumes "follows row c (ns @ [0])" "0 \<notin> set ns" "\<forall>u. length (row u) = n" "c < n"
  shows "length ns < n"
proof -
  have "distinct (c # ns)" using follows_distinct[OF assms(1,2)] .
  moreover have "set (c # ns) \<subseteq> {0..<n}"
    using follows_bounded[OF assms(1,3)] assms(4) by auto
  ultimately have "length (c # ns) \<le> card {0..<n}"
    by (metis card_mono distinct_card finite_atLeastLessThan)
  then show ?thesis by simp
qed

lemma decode_vehicle_Inr_iff:
  assumes "0 < n"
  shows "decode_vehicle sol n v = Some (Inr route) \<longleftrightarrow>
      (1 \<notin> set (solution_row sol n v 0) \<and> route = [''0'', ''0''])
    \<or> (\<exists>ns. follows (solution_row sol n v) 0 (ns @ [0]) \<and> 0 \<notin> set ns \<and> length ns < n
            \<and> route = ''0'' # map str_nat (ns @ [0]))"
proof (cases "1 \<in> set (solution_row sol n v 0)")
  case False
  then have "index_of (solution_row sol n v 0) 1 = None"
    by (simp add: index_of_None)
  then have "\<not> follows (solution_row sol n v) 0 (ns @ [0])" for ns
    by (cases ns) simp_all
  with False assms show ?thesis
    by (auto simp: decode_vehicle_def)
next
  case True
  let ?row = "solution_row sol n v"
  have len: "\<forall>u. length (?row u) = n"
    by (simp add: solution_row_def)
  have dv: "decode_vehicle sol n v = trace_route ?row 0 [''0'']"
    using True assms by (simp add: decode_vehicle_def)
  show ?thesis
  proof
    assume "decode_vehicle sol n v = Some (Inr route)"
    then have "trace_route ?row 0 [''0''] = Some (Inr route)"
      by (simp add: dv)
    from trace_route_sound[OF this] obtain ns where ns: "follows ?row 0 (ns @ [0])"
      "0 \<notin> set ns" "route = [''0''] @ map str_nat (ns @ [0])"
      by auto
    from follows_length[OF ns(1,2) len assms] ns show
      "(1 \<notin> set (?row 0) \<and> route = [''0'', ''0''])
       \<or> (\<exists>ns. follows ?row 0 (ns @ [0]) \<and> 0 \<notin> set ns \<and> length ns < n
            \<and> route = ''0'' # map str_nat (ns @ [0]))"
      by auto
  next
    assume "(1 \<notin> set (?row 0) \<and> route = [''0'', ''0''])
       \<or> (\<exists>ns. follows ?row 0 (ns @ [0]) \<and> 0 \<notin> set ns \<and> length ns < n
            \<and> route = ''0'' # map str_nat (ns @ [0]))"
    with True obtain ns where ns: "follows ?row 0 (ns @ [0])" "0 \<notin> set ns"
      "route = ''0'' # map str_nat (ns @ [0])"
      by auto
    from trace_route_complete[OF ns(1,2), of "[''0'']"] ns(3)
    show "decode_vehicle sol n v = Some (Inr route)"
      by (simp add: dv)
  qed
qed

lemma in_set_butlast_or_last:
  "u \<in> set zs \<Longrightarrow> u \<noteq> last zs \<Longrightarrow> u \<in> set (butlast zs)"
  by (induction zs) (auto split: if_splits)

lemma dead_end_distinct:
  "follows row c ns \<Longrightarrow> index_of (row (last (c # ns))) 1 = None \<Longrightarrow> distinct (c # ns)"
proof (induction ns arbitrary: c)
  case Nil
  then show ?case by simp
next
  case (Cons x xs)
  then have nx: "index_of (row c) 1 = Some x" and f: "follows row x xs"
    and dead: "index_of (row (last (x # xs))) 1 = None"
    by auto
  from Cons.IH[OF f dead] have d: "distinct (x # xs)" .
  have "c \<notin> set (x # xs)"
  proof
    assume c: "c \<in> set (x # xs)"
    have "c \<noteq> last (x # xs)"
      using nx dead by auto
    with c have "c \<in> set (butlast (x # xs))"
      by (rule in_set_butlast_or_last)
    from follows_next_in[OF f this] nx have "x \<in> set xs"
      by auto
    with d show False by simp
  qed
  with d show ?case by simp
qed

lemma dead_end_length:
  assumes "follows row c ns" "index_of (row (last (c # ns))) 1 = None"
    and "\<forall>u. length (row u) = n" "c < n"
  shows "length ns < n"
proof -
  have d: "distinct (c # ns)" using dead_end_distinct[OF assms(1,2)] .
  have sub: "set (c # ns) \<subseteq> {0..<n}"
    using follows_bounded[OF assms(1,3)] assms(4) by auto
  have "card (set (c # ns)) \<le> card {0..<n}"
    by (rule card_mono[OF finite_atLeastLessThan sub])
  moreover have "card (set (c # ns)) = length (c # ns)"
    by (rule distinct_card[OF d])
  ultimately show ?thesis by simp
qed

lemma follows_selected:
  assumes "follows row c ns" "ns \<noteq> []"
  shows "1 \<in> set (row c)"
proof -
  from assms obtain x xs where "ns = x # xs" by (cases ns) auto
  with assms(1) have "index_of (row c) 1 \<noteq> None" by simp
  then show ?thesis
    by (simp add: index_of_None)
qed

lemma decode_vehicle_Inl_iff:
  assumes "0 < n"
  shows "decode_vehicle sol n v = Some (Inl e) \<longleftrightarrow>
      e = ValueError_not_in_list
    \<and> (\<exists>ns. ns \<noteq> [] \<and> follows (solution_row sol n v) 0 ns \<and> 0 \<notin> set ns
            \<and> 1 \<notin> set (solution_row sol n v (last ns)))"
proof
  let ?row = "solution_row sol n v"
  assume inl: "decode_vehicle sol n v = Some (Inl e)"
  with assms have sel: "1 \<in> set (?row 0)"
    and tr: "trace_route ?row 0 [''0''] = Some (Inl e)"
    by (auto simp: decode_vehicle_def Let_def split: if_splits)
  from trace_route_sound[OF tr] obtain ns where ns: "e = ValueError_not_in_list"
    "follows ?row 0 ns" "0 \<notin> set ns" "index_of (?row (last (0 # ns))) 1 = None"
    by auto
  from ns(4) sel have "ns \<noteq> []"
    by (auto simp: index_of_None)
  with ns show "e = ValueError_not_in_list
    \<and> (\<exists>ns. ns \<noteq> [] \<and> follows ?row 0 ns \<and> 0 \<notin> set ns \<and> 1 \<notin> set (?row (last ns)))"
    by (auto simp: index_of_None)
next
  let ?row = "solution_row sol n v"
  assume "e = ValueError_not_in_list
    \<and> (\<exists>ns. ns \<noteq> [] \<and> follows ?row 0 ns \<and> 0 \<notin> set ns \<and> 1 \<notin> set (?row (last ns)))"
  then obtain ns where e: "e = ValueError_not_in_list" and ns: "ns \<noteq> []" "follows ?row 0 ns"
    "0 \<notin> set ns" "1 \<notin> set (?row (last ns))"
    by blast
  have "1 \<in> set (?row 0)"
    using follows_selected[OF ns(2,1)] .
  then have dv: "decode_vehicle sol n v = trace_route ?row 0 [''0'']"
    using assms by (simp add: decode_vehicle_def)
  have "index_of (?row (last (0 # ns))) 1 = None"
    using ns(1,4) by (simp add: index_of_None)
  from trace_route_dead_end[OF ns(2,3) this, of "[''0'']"] e
  show "decode_vehicle sol n v = Some (Inl e)"
    by (simp add: dv)
qed

lemma decode_vehicle_None_iff:
  assumes "0 < n"
  shows "decode_vehicle sol n v = None \<longleftrightarrow>
      (\<exists>ns. length ns = n \<and> follows (solution_row sol n v) 0 ns \<and> 0 \<notin> set ns)"
proof
  let ?row = "solution_row sol n v"
  assume none: "decode_vehicle sol n v = None"
  with assms have "trace_route ?row 0 [''0''] = None"
    by (auto simp: decode_vehicle_def Let_def split: if_splits)
  then show "\<exists>ns. length ns = n \<and> follows ?row 0 ns \<and> 0 \<notin> set ns"
    by (rule trace_route_None_chain)
next
  let ?row = "solution_row sol n v"
  have len: "\<forall>u. length (?row u) = n"
    by (simp add: solution_row_def)
  assume "\<exists>ns. length ns = n \<and> follows ?row 0 ns \<and> 0 \<notin> set ns"
  then obtain ns where ns: "length ns = n" "follows ?row 0 ns" "0 \<notin> set ns"
    by blast
  with assms have "ns \<noteq> []" by auto
  then have sel: "1 \<in> set (?row 0)"
    using follows_selected[OF ns(2)] by simp
  show "decode_vehicle sol n v = None"
  proof (cases "decode_vehicle sol n v")
    case None
    then show ?thesis .
  next
    case (Some res)
    show ?thesis
    proof (cases res)
      case (Inr route)
      with Some sel decode_vehicle_Inr_iff[OF assms, of sol v route]
      obtain ns0 where ns0: "follows ?row 0 (ns0 @ [0])" "length ns0 < n"
        by auto
      then have "take (length (ns0 @ [0])) ns = ns0 @ [0]"
        using ns(1,2) by (intro follows_prefix) auto
      then have "0 \<in> set (take (length (ns0 @ [0])) ns)"
        by simp
      then have "0 \<in> set ns"
        by (rule in_set_takeD)
      with ns(3) show ?thesis by simp
    next
      case (Inl e)
      with Some decode_vehicle_Inl_iff[OF assms, of sol v e]
      obtain ns0 where ns0: "ns0 \<noteq> []" "follows ?row 0 ns0" "1 \<notin> set (?row (last ns0))"
        by auto
      then have dead: "index_of (?row (last (0 # ns0))) 1 = None"
        by (simp add: index_of_None)
      have short: "length ns0 < n"
        using dead_end_length[OF ns0(2) dead len assms] .
      then have pre: "take (length ns0) ns = ns0"
        using ns(1,2) ns0(2) by (intro follows_prefix) auto
      have split: "ns = ns0 @ drop (length ns0) ns"
        using pre by (metis append_take_drop_id)
      have more: "drop (length ns0) ns \<noteq> []"
        using short ns(1) by simp
      from ns(2) split have "follows ?row (last (0 # ns0)) (drop (length ns0) ns)"
        by (metis follows_append)
      from follows_selected[OF this more] dead show ?thesis
        by (simp add: index_of_None)
    qed
  qed
qed

text \<open>
  Claim C4, as the code has it. With at least one customer, decoding the route of a vehicle
  has three outcomes. It returns a route exactly when the vehicle is unused or the trace
  from the depot, which takes at every node the first selected arc, comes back to the
  depot; it has then passed fewer than \<open>num_customers\<close> other nodes, that is, taken at most
  \<open>num_customers\<close> steps. It raises the ValueError of \<^verbatim>\<open>index(1)\<close> exactly when the trace
  reaches, before it is back at the depot, a node without a selected arc. It does not
  terminate exactly when the trace is still away from the depot after \<open>num_customers\<close>
  steps. The loop has no bound of its own and reports no decoding error.
\<close>

theorem decode_vehicle_closes_or_fails:
  assumes "0 < n"
  shows "(decode_vehicle sol n v = Some (Inr route) \<longleftrightarrow>
            (1 \<notin> set (solution_row sol n v 0) \<and> route = [''0'', ''0''])
          \<or> (\<exists>ns. follows (solution_row sol n v) 0 (ns @ [0]) \<and> 0 \<notin> set ns \<and> length ns < n
                  \<and> route = ''0'' # map str_nat (ns @ [0])))
       \<and> (decode_vehicle sol n v = Some (Inl e) \<longleftrightarrow>
            e = ValueError_not_in_list
          \<and> (\<exists>ns. ns \<noteq> [] \<and> follows (solution_row sol n v) 0 ns \<and> 0 \<notin> set ns
                  \<and> 1 \<notin> set (solution_row sol n v (last ns))))
       \<and> (decode_vehicle sol n v = None \<longleftrightarrow>
            (\<exists>ns. length ns = n \<and> follows (solution_row sol n v) 0 ns \<and> 0 \<notin> set ns))"
proof (intro conjI)
  show "decode_vehicle sol n v = Some (Inr route) \<longleftrightarrow>
            (1 \<notin> set (solution_row sol n v 0) \<and> route = [''0'', ''0''])
          \<or> (\<exists>ns. follows (solution_row sol n v) 0 (ns @ [0]) \<and> 0 \<notin> set ns \<and> length ns < n
                  \<and> route = ''0'' # map str_nat (ns @ [0]))"
    by (rule decode_vehicle_Inr_iff[OF assms])
  show "decode_vehicle sol n v = Some (Inl e) \<longleftrightarrow>
            e = ValueError_not_in_list
          \<and> (\<exists>ns. ns \<noteq> [] \<and> follows (solution_row sol n v) 0 ns \<and> 0 \<notin> set ns
                  \<and> 1 \<notin> set (solution_row sol n v (last ns)))"
    by (rule decode_vehicle_Inl_iff[OF assms])
  show "decode_vehicle sol n v = None \<longleftrightarrow>
            (\<exists>ns. length ns = n \<and> follows (solution_row sol n v) 0 ns \<and> 0 \<notin> set ns)"
    by (rule decode_vehicle_None_iff[OF assms])
qed

theorem decode_vehicle_closes_or_fails_witness:
  "decode_vehicle tour_solution 3 0 = Some (Inr [''0'', ''2'', ''1'', ''0''])"
proof -
  have row0: "index_of (solution_row tour_solution 3 0 0) 1 = Some 2"
    and row2: "index_of (solution_row tour_solution 3 0 2) 1 = Some (Suc 0)"
    and row1: "index_of (solution_row tour_solution 3 0 (Suc 0)) 1 = Some 0"
    by (simp_all add: solution_row_def tour_solution_def upt_rec)
  have "follows (solution_row tour_solution 3 0) 0 ([2, 1] @ [0])"
    by (simp add: row0 row1 row2)
  then have "\<exists>ns. follows (solution_row tour_solution 3 0) 0 (ns @ [0]) \<and> 0 \<notin> set ns
      \<and> length ns < 3 \<and> [''0'', ''2'', ''1'', ''0''] = ''0'' # map str_nat (ns @ [0])"
    by (intro exI[of _ "[2, 1]"]) simp
  with decode_vehicle_closes_or_fails[of 3 tour_solution 0 "[''0'', ''2'', ''1'', ''0'']"]
  show ?thesis by simp
qed

lemma cycling_never_returns:
  assumes "trace_route row c r = Some res"
  shows "row = solution_row cycling_solution 3 0 \<longrightarrow> 3 \<le> c"
proof (rule trace_route.raw_induct[where
      P = "\<lambda>row c r res. row = solution_row cycling_solution 3 0 \<longrightarrow> 3 \<le> c", OF _ assms])
  fix tr row c r res
  assume IH: "\<And>row c r res. tr row c r = Some res \<Longrightarrow>
      row = solution_row cycling_solution 3 0 \<longrightarrow> 3 \<le> c"
    and step: "(case index_of (row c) 1 of
        None \<Rightarrow> Some (Inl ValueError_not_in_list)
      | Some next_node \<Rightarrow>
          (if next_node = 0 then Some (Inr (r @ [str_nat next_node]))
           else tr row next_node (r @ [str_nat next_node]))) = Some res"
  show "row = solution_row cycling_solution 3 0 \<longrightarrow> 3 \<le> c"
  proof
    assume row: "row = solution_row cycling_solution 3 0"
    have rows: "row 0 = [0, 1, 0]" "row 1 = [0, 0, 1]" "row 2 = [0, 1, 0]"
      by (simp_all add: row solution_row_def cycling_solution_def upt_rec)
    show "3 \<le> c"
    proof (rule ccontr)
      assume "\<not> 3 \<le> c"
      then consider "c = 0" | "c = 1" | "c = 2" by linarith
      then show False
      proof cases
        case 1
        with step rows have "tr row 1 (r @ [str_nat 1]) = Some res" by simp
        from IH[OF this] row show False by simp
      next
        case 2
        with step rows have "tr row 2 (r @ [str_nat 2]) = Some res"
          by (simp add: numeral_2_eq_2)
        from IH[OF this] row show False by simp
      next
        case 3
        with step rows have "tr row 1 (r @ [str_nat 1]) = Some res" by simp
        from IH[OF this] row show False by simp
      qed
    qed
  qed
qed

text \<open>
  Claim C4 as stated fails: on the arcs 0 \<rightarrow> 1, 1 \<rightarrow> 2, 2 \<rightarrow> 1 of vehicle 0 the decoder
  neither returns a route nor reports an error; it does not terminate.
\<close>

theorem cycle_never_terminates_counterexample:
  "decode_vehicle cycling_solution 3 0 = None"
proof -
  have "1 \<in> set (solution_row cycling_solution 3 0 0)"
    by (simp add: solution_row_def cycling_solution_def upt_rec)
  then have dv: "decode_vehicle cycling_solution 3 0
      = trace_route (solution_row cycling_solution 3 0) 0 [str_nat 0]"
    by (simp add: decode_vehicle_def)
  show ?thesis
  proof (cases "decode_vehicle cycling_solution 3 0")
    case None
    then show ?thesis .
  next
    case (Some res)
    with dv have "trace_route (solution_row cycling_solution 3 0) 0 [str_nat 0] = Some res"
      by simp
    from cycling_never_returns[OF this] show ?thesis by simp
  qed
qed

text \<open>
  Claim C6, as the code has it. At every node the decoder follows the first selected arc,
  the one to the least \<open>j\<close> with value 1, whatever the values of the arcs after it; a second
  selected arc out of the node is not noticed.
\<close>

theorem first_selected_arc_followed:
  assumes "j < length (row c)" and "row c ! j = 1" and "\<forall>k<j. row c ! k \<noteq> 1"
  shows "trace_route row c r =
           (if j = 0 then Some (Inr (r @ [''0''])) else trace_route row j (r @ [str_nat j]))"
proof -
  have "index_of (row c) 1 = Some j"
    using assms by (rule index_of_first)
  then show ?thesis
    by (subst trace_route.simps) simp
qed

theorem first_selected_arc_followed_witness:
  "solution_row two_arcs_solution 3 0 0 = [0, 1, 1]
   \<and> trace_route (solution_row two_arcs_solution 3 0) 0 [''0'']
       = trace_route (solution_row two_arcs_solution 3 0) 1 [''0'', ''1'']"
proof -
  have row: "solution_row two_arcs_solution 3 0 0 = [0, 1, 1]"
    by (simp add: solution_row_def two_arcs_solution_def upt_rec)
  have "1 < length (solution_row two_arcs_solution 3 0 0)"
    "solution_row two_arcs_solution 3 0 0 ! 1 = 1"
    "\<forall>k<1. solution_row two_arcs_solution 3 0 0 ! k \<noteq> 1"
    by (simp_all add: row)
  from first_selected_arc_followed
    [of 1 "solution_row two_arcs_solution 3 0" 0 "[''0'']", OF this] row
  show ?thesis
    by simp
qed

text \<open>
  Claim C6 as stated fails: two arcs out of the depot are selected for vehicle 0, and the
  decoder returns the route through the first of them without an error.
\<close>

theorem two_selected_arcs_no_error_counterexample:
  "solution_row two_arcs_solution 3 0 0 = [0, 1, 1]
   \<and> decode_vehicle two_arcs_solution 3 0 = Some (Inr [''0'', ''1'', ''0''])"
  by (simp add: decode_vehicle_def solution_row_def two_arcs_solution_def upt_rec
      trace_route.simps)

lemma decode_routes_Inr_iff:
  "decode_routes sol n vs acc = Some (Inr routes) \<longleftrightarrow>
     (\<exists>rs. list_all2 (\<lambda>v r. decode_vehicle sol n v = Some (Inr r)) vs rs \<and> routes = acc @ rs)"
proof (induction vs arbitrary: acc)
  case Nil
  show ?case by auto
next
  case (Cons v vs)
  show ?case
  proof (cases "decode_vehicle sol n v")
    case None
    then show ?thesis by (auto simp: list_all2_Cons1)
  next
    case (Some res)
    show ?thesis
    proof (cases res)
      case (Inl e)
      with Some show ?thesis by (auto simp: list_all2_Cons1)
    next
      case (Inr r)
      with Some Cons.IH[of "acc @ [r]"] show ?thesis
        by (auto simp: list_all2_Cons1)
    qed
  qed
qed

lemma uncovered_instance_read:
  "VRPInstance_init py64
      (Some [''3 1 3\<newline>'', ''0 0 0\<newline>'', ''5 0 0\<newline>'', ''5 0 0\<newline>''])
     = Inr uncovered_instance"
  by (simp add: VRPInstance_init_Some parse_first_line_def parse_customer_data_def item_def
      py_int_def py_float_def dec_float_def split_def strip_def is_space_def py64_def
      dec_int_def is_digit_def digits_value_def upt_rec uncovered_instance_def
      numeral_3_eq_3)

text \<open>
  Claim C8, as the code has it. With at least one customer, a vehicle \<open>v\<close> for which no arc
  out of the depot is selected gets exactly the route \<^verbatim>\<open>["0", "0"]\<close>, and the loop goes on
  with the next vehicle, this route appended. The decoder computes no distance and no load:
  in the solution string that \<open>solve\<close> returns, the entry of the vehicle is this route of
  two node names and nothing else.
\<close>

theorem unused_vehicle_trivial_route:
  assumes "0 < n" and "\<forall>j<n. solution_value sol (EdgeVar v 0 j) = 0"
  shows "decode_vehicle sol n v = Some (Inr [''0'', ''0''])
       \<and> decode_routes sol n (v # vs) vehicle_routes
           = decode_routes sol n vs (vehicle_routes @ [[''0'', ''0'']])
       \<and> (nat (num_customers p) = n \<and> v < nat (num_vehicles p) \<and> engine m = Some sol
            \<and> solve fmt engine p m = Some (Inr out) \<longrightarrow>
            (\<exists>routes. out = sol_string fmt (objective_value sol) routes
                \<and> length routes = nat (num_vehicles p) \<and> routes ! v = [''0'', ''0'']))"
proof -
  have "1 \<notin> set (solution_row sol n v 0)"
    using assms(2) by (auto simp: solution_row_def)
  then have dv: "decode_vehicle sol n v = Some (Inr [''0'', ''0''])"
    using assms(1) by (simp add: decode_vehicle_def)
  have "\<exists>routes. out = sol_string fmt (objective_value sol) routes
                \<and> length routes = nat (num_vehicles p) \<and> routes ! v = [''0'', ''0'']"
    if run: "nat (num_customers p) = n \<and> v < nat (num_vehicles p) \<and> engine m = Some sol
            \<and> solve fmt engine p m = Some (Inr out)"
  proof -
    from run obtain routes where
      dr: "decode_routes sol n [0..<nat (num_vehicles p)] [] = Some (Inr routes)"
      and out: "out = sol_string fmt (objective_value sol) routes"
      by (auto simp: solve_def split: option.splits sum.splits)
    from dr have all: "list_all2 (\<lambda>v r. decode_vehicle sol n v = Some (Inr r))
        [0..<nat (num_vehicles p)] routes"
      by (simp add: decode_routes_Inr_iff)
    then have len: "length routes = nat (num_vehicles p)"
      by (auto dest: list_all2_lengthD)
    from run have "v < length [0..<nat (num_vehicles p)]"
      by simp
    from list_all2_nthD[OF all this] run have "decode_vehicle sol n v = Some (Inr (routes ! v))"
      by simp
    with dv have "routes ! v = [''0'', ''0'']"
      by simp
    with out len show ?thesis by blast
  qed
  with dv show ?thesis
    by simp
qed

theorem unused_vehicle_trivial_route_witness:
  "decode_vehicle tour_solution 3 1 = Some (Inr [''0'', ''0''])
   \<and> decode_routes tour_solution 3 [1] [[''0'', ''2'', ''1'', ''0'']]
       = Some (Inr [[''0'', ''2'', ''1'', ''0''], [''0'', ''0'']])
   \<and> (\<exists>routes. ''12.0 1\<newline>0 2 1 0\<newline>0 0\<newline>''
         = sol_string (\<lambda>obj. ''12.0'') (objective_value tour_solution) routes
       \<and> length routes = nat (num_vehicles small_instance) \<and> routes ! 1 = [''0'', ''0''])"
proof -
  have h: "(0::nat) < 3" "\<forall>j<3. solution_value tour_solution (EdgeVar 1 0 j) = 0"
    by (simp_all add: tour_solution_def)
  obtain m where m: "VRPSolver_init py64 small_instance = Inr m"
    using small_instance_built by blast
  have v0: "decode_vehicle tour_solution 3 0 = Some (Inr [''0'', ''2'', ''1'', ''0''])"
    by (simp add: decode_vehicle_def solution_row_def tour_solution_def upt_rec
        trace_route.simps)
  have v1: "decode_vehicle tour_solution 3 (Suc 0) = Some (Inr [''0'', ''0''])"
    by (simp add: decode_vehicle_def solution_row_def tour_solution_def upt_rec)
  have run: "nat (num_customers small_instance) = 3 \<and> 1 < nat (num_vehicles small_instance)
      \<and> (\<lambda>m. Some tour_solution) m = Some tour_solution
      \<and> solve (\<lambda>obj. ''12.0'') (\<lambda>m. Some tour_solution) small_instance m
          = Some (Inr ''12.0 1\<newline>0 2 1 0\<newline>0 0\<newline>'')"
    by (simp add: solve_def small_instance_def upt_rec v0 v1 sol_string_def)
  note r = unused_vehicle_trivial_route[OF h, of "[]" "[[''0'', ''2'', ''1'', ''0'']]"
      small_instance "\<lambda>m. Some tour_solution" m "\<lambda>obj. ''12.0''"
      "''12.0 1\<newline>0 2 1 0\<newline>0 0\<newline>''"]
  from conjunct1[OF r] conjunct1[OF conjunct2[OF r]] mp[OF conjunct2[OF conjunct2[OF r]] run]
  show ?thesis by simp
qed

text \<open>
  Claim C8 as stated fails: vehicle 0 has no selected arc out of the depot, and what is
  emitted for it is the route \<^verbatim>\<open>["0", "0"]\<close> alone, the line \<^verbatim>\<open>0 0\<close> of the solution string,
  without a distance and without a load. The arcs that are selected for this vehicle, from
  customer 1 to customer 2 and back, enter customers whose demands add up to 10.
\<close>

theorem unused_vehicle_no_distance_or_load_counterexample:
  "solution_row subtour_solution 3 0 0 = [0, 0, 0]
   \<and> decode_routes subtour_solution 3 [0] [] = Some (Inr [[''0'', ''0'']])
   \<and> main py64 (\<lambda>obj. ''10.0'') (\<lambda>m. Some subtour_solution)
        (Some [''3 1 3\<newline>'', ''0 0 0\<newline>'', ''5 0 0\<newline>'', ''5 0 0\<newline>''])
      = Some (Inr ''10.0 1\<newline>0 0\<newline>'')
   \<and> solution_value subtour_solution (EdgeVar 0 1 2) = 1
   \<and> solution_value subtour_solution (EdgeVar 0 2 1) = 1
   \<and> demand_of_customer uncovered_instance ! 2 + demand_of_customer uncovered_instance ! 1 = 10"
proof -
  have row: "solution_row subtour_solution 3 0 0 = [0, 0, 0]"
    by (simp add: solution_row_def subtour_solution_def upt_rec)
  then have v0: "decode_vehicle subtour_solution 3 0 = Some (Inr [''0'', ''0''])"
    by (simp add: decode_vehicle_def)
  then have routes: "decode_routes subtour_solution 3 [0] [] = Some (Inr [[''0'', ''0'']])"
    by simp
  obtain m where m: "VRPSolver_init py64 uncovered_instance = Inr m"
    using uncovered_instance_built by blast
  have "solve (\<lambda>obj. ''10.0'') (\<lambda>m. Some subtour_solution) uncovered_instance m
      = Some (Inr ''10.0 1\<newline>0 0\<newline>'')"
    by (simp add: solve_def uncovered_instance_def v0 sol_string_def)
  then have run: "main py64 (\<lambda>obj. ''10.0'') (\<lambda>m. Some subtour_solution)
        (Some [''3 1 3\<newline>'', ''0 0 0\<newline>'', ''5 0 0\<newline>'', ''5 0 0\<newline>''])
      = Some (Inr ''10.0 1\<newline>0 0\<newline>'')"
    by (simp add: main_def uncovered_instance_read m)
  have "solution_value subtour_solution (EdgeVar 0 1 2) = 1"
    "solution_value subtour_solution (EdgeVar 0 2 1) = 1"
    "demand_of_customer uncovered_instance ! 2 + demand_of_customer uncovered_instance ! 1 = 10"
    by (simp_all add: subtour_solution_def uncovered_instance_def)
  with row routes run show ?thesis
    by blast
qed

text \<open>
  Claim C7, as the code has it. \<open>solve\<close> returns a solution string exactly when the engine
  returns a solution and the decoding of every vehicle returns a route; the string is the
  formatted objective value of the engine followed by these routes. Neither the demands, nor
  the capacity, nor the distances, nor the set of customers take part: nothing is verified.
\<close>

theorem solve_returns_unchecked_routes:
  "solve fmt engine p m = Some (Inr out) \<longleftrightarrow>
     (\<exists>sol routes. engine m = Some sol
        \<and> length routes = nat (num_vehicles p)
        \<and> (\<forall>v<nat (num_vehicles p).
              decode_vehicle sol (nat (num_customers p)) v = Some (Inr (routes ! v)))
        \<and> out = sol_string fmt (objective_value sol) routes)"
proof (cases "engine m")
  case None
  then show ?thesis by (simp add: solve_def)
next
  case (Some sol)
  let ?ok = "\<lambda>sol routes. length routes = nat (num_vehicles p)
        \<and> (\<forall>v<nat (num_vehicles p).
              decode_vehicle sol (nat (num_customers p)) v = Some (Inr (routes ! v)))"
  have dr: "decode_routes sol (nat (num_customers p)) [0..<nat (num_vehicles p)] [] = Some (Inr routes)
      \<longleftrightarrow> ?ok sol routes" for routes
    unfolding decode_routes_Inr_iff by (auto simp: list_all2_conv_all_nth)
  have "solve fmt engine p m = Some (Inr out) \<longleftrightarrow>
      (\<exists>routes. decode_routes sol (nat (num_customers p)) [0..<nat (num_vehicles p)] []
          = Some (Inr routes) \<and> out = sol_string fmt (objective_value sol) routes)"
    by (auto simp: solve_def Some split: option.splits sum.splits)
  also have "\<dots> \<longleftrightarrow> (\<exists>routes. ?ok sol routes \<and> out = sol_string fmt (objective_value sol) routes)"
    by (simp only: dr)
  also have "\<dots> \<longleftrightarrow> (\<exists>sol routes. engine m = Some sol \<and> ?ok sol routes
      \<and> out = sol_string fmt (objective_value sol) routes)"
    using Some by auto
  finally show ?thesis
    by (simp only: conj_assoc)
qed

theorem solve_returns_unchecked_routes_witness:
  "\<forall>m. solve (\<lambda>obj. ''12.0'') (\<lambda>m. Some tour_solution) small_instance m
     = Some (Inr ''12.0 1\<newline>0 2 1 0\<newline>0 0\<newline>'')"
proof
  fix m
  let ?routes = "[[''0'', ''2'', ''1'', ''0''], [''0'', ''0'']]"
  have v0: "decode_vehicle tour_solution 3 0 = Some (Inr [''0'', ''2'', ''1'', ''0''])"
    by (simp add: decode_vehicle_def solution_row_def tour_solution_def upt_rec
        trace_route.simps)
  have v1: "decode_vehicle tour_solution 3 (Suc 0) = Some (Inr [''0'', ''0''])"
    by (simp add: decode_vehicle_def solution_row_def tour_solution_def upt_rec)
  have "\<forall>v<nat (num_vehicles small_instance).
      decode_vehicle tour_solution (nat (num_customers small_instance)) v = Some (Inr (?routes ! v))"
    by (simp add: small_instance_def numeral_2_eq_2 less_Suc_eq v0 v1)
  moreover have "length ?routes = nat (num_vehicles small_instance)"
    by (simp add: small_instance_def)
  moreover have "''12.0 1\<newline>0 2 1 0\<newline>0 0\<newline>''
      = sol_string (\<lambda>obj. ''12.0'') (objective_value tour_solution) ?routes"
    by (simp add: sol_string_def)
  ultimately show "solve (\<lambda>obj. ''12.0'') (\<lambda>m. Some tour_solution) small_instance m
     = Some (Inr ''12.0 1\<newline>0 2 1 0\<newline>0 0\<newline>'')"
    unfolding solve_returns_unchecked_routes by blast
qed

text \<open>
  Claim C7 as stated fails: the solution below leaves customer 2 out of every route, loads
  vehicle 0 with a demand of 5 against a capacity of 3, and reports the objective 7 for
  routes of total distance 0; it is returned as it is.
\<close>

theorem unchecked_solution_returned_counterexample:
  "VRPInstance_init py64
      (Some [''3 1 3\<newline>'', ''0 0 0\<newline>'', ''5 0 0\<newline>'', ''5 0 0\<newline>''])
     = Inr uncovered_instance
   \<and> main py64 (\<lambda>obj. ''7.0'') (\<lambda>m. Some uncovered_solution)
        (Some [''3 1 3\<newline>'', ''0 0 0\<newline>'', ''5 0 0\<newline>'', ''5 0 0\<newline>''])
      = Some (Inr ''7.0 1\<newline>0 1 0\<newline>'')
   \<and> vehicle_capacity uncovered_instance < demand_of_customer uncovered_instance ! 1
   \<and> distance py64 uncovered_instance 0 1 = Inr 0
   \<and> distance py64 uncovered_instance 1 0 = Inr 0
   \<and> objective_value uncovered_solution = 7"
proof -
  obtain m where m: "VRPSolver_init py64 uncovered_instance = Inr m"
    using uncovered_instance_built by blast
  have v0: "decode_vehicle uncovered_solution 3 0 = Some (Inr [''0'', ''1'', ''0''])"
    by (simp add: decode_vehicle_def solution_row_def uncovered_solution_def upt_rec
        trace_route.simps)
  have "solve (\<lambda>obj. ''7.0'') (\<lambda>m. Some uncovered_solution) uncovered_instance m
      = Some (Inr ''7.0 1\<newline>0 1 0\<newline>'')"
    by (simp add: solve_def uncovered_instance_def v0 sol_string_def)
  then have "main py64 (\<lambda>obj. ''7.0'') (\<lambda>m. Some uncovered_solution)
        (Some [''3 1 3\<newline>'', ''0 0 0\<newline>'', ''5 0 0\<newline>'', ''5 0 0\<newline>''])
      = Some (Inr ''7.0 1\<newline>0 1 0\<newline>'')"
    by (simp add: main_def uncovered_instance_read m)
  moreover have "vehicle_capacity uncovered_instance < demand_of_customer uncovered_instance ! 1"
    by (simp add: uncovered_instance_def)
  moreover have "distance py64 uncovered_instance 0 1 = Inr 0"
    "distance py64 uncovered_instance 1 0 = Inr 0"
    by (simp_all add: distance_def item_def py64_def uncovered_instance_def)
  moreover have "objective_value uncovered_solution = 7"
    by (simp add: uncovered_solution_def)
  ultimately show ?thesis
    using uncovered_instance_read by blast
qed

end
